theory Spec2Isabelle
  imports Main
begin

section \<open>Constants and plain data (main.cpp, lines 29--80)\<close>

definition BLOCK_SIZE :: int where [simp]: "BLOCK_SIZE = 20"
definition GRID_WIDTH :: int where [simp]: "GRID_WIDTH = 40"
definition GRID_HEIGHT :: int where [simp]: "GRID_HEIGHT = 30"
definition SCREEN_WIDTH :: int where [simp]: "SCREEN_WIDTH = GRID_WIDTH * BLOCK_SIZE"
definition SCREEN_HEIGHT :: int where [simp]: "SCREEN_HEIGHT = GRID_HEIGHT * BLOCK_SIZE"
definition BUTTON_WIDTH :: int where [simp]: "BUTTON_WIDTH = 200"
definition BUTTON_HEIGHT :: int where [simp]: "BUTTON_HEIGHT = 50"

datatype GameState =
  StartMenu | Settings | Keybinds | Countdown | Playing | Pause
  | ConfirmRestart | ConfirmMainMenu | GameOver

text \<open>
  \<open>struct Point { int x; int y; }\<close>. The fields are called \<open>px\<close> and \<open>py\<close> here, because
  a record field is a constant and \<open>x\<close>, \<open>y\<close> would capture every variable of that name.
  The coordinates are C++ \<open>int\<close>s of 32 bits. They are modelled as unbounded integers,
  and \<open>int_point\<close> says that a Point is one of the source's: both coordinates lie between
  \<open>INT_MIN\<close> and \<open>INT_MAX\<close>. The arithmetic of the model is that of the source as long as
  its results are such Points; beyond, the increments of \<open>Snake::update\<close> overflow, which is
  undefined in C++. Every coordinate of a snake the game produces lies in \<open>[-1, 40]\<close>
  (lemmas \<open>reachable_coordinates_bounded\<close> and \<open>reachable_advance_defined\<close> below), so
  the Game never leaves that range; what is proved of the Snake alone assumes it.
\<close>

record Point =
  px :: int
  py :: int

definition INT_MAX :: int where [simp]: "INT_MAX = 2147483647"
definition INT_MIN :: int where [simp]: "INT_MIN = - 2147483648"

definition int_point :: "Point \<Rightarrow> bool" where
  "int_point p \<longleftrightarrow>
     INT_MIN \<le> px p \<and> px p \<le> INT_MAX \<and> INT_MIN \<le> py p \<and> py p \<le> INT_MAX"

datatype Direction = Up | Down | Left | Right

section \<open>The Snake (main.cpp, lines 82--160)\<close>

record Snake =
  segments :: "Point list"
  current_direction :: Direction
  grow_snake :: bool

text \<open>
  The loop of the constructor \<open>Snake(int init_length)\<close>:
  \<open>for (int i = 0; i < init_length; ++i) segments.push_back({ init_x - i, init_y })\<close>.
\<close>

function Snake_init_loop :: "int \<Rightarrow> int \<Rightarrow> Point list \<Rightarrow> Point list" where
  "Snake_init_loop i init_length segs =
     (if i < init_length
      then Snake_init_loop (i + 1) init_length
             (segs @ [\<lparr>px = GRID_WIDTH div 2 - i, py = GRID_HEIGHT div 2\<rparr>])
      else segs)"
  by pat_completeness auto
termination
  by (relation "measure (\<lambda>(i, init_length, segs). nat (init_length - i))") auto

declare Snake_init_loop.simps [simp del]

definition Snake_init :: "int \<Rightarrow> Snake" where
  "Snake_init init_length =
     \<lparr>segments = Snake_init_loop 0 init_length [],
      current_direction = Right,
      grow_snake = False\<rparr>"

text \<open>
  \<open>segments.front()\<close> on an empty vector is undefined behaviour; the operations that
  call it return \<open>None\<close> there.
\<close>

definition get_head :: "Snake \<Rightarrow> Point option" where
  "get_head s = (case segments s of [] \<Rightarrow> None | front # _ \<Rightarrow> Some front)"

definition Snake_update :: "Snake \<Rightarrow> Snake option" where
  "Snake_update s =
     (case segments s of
        [] \<Rightarrow> None
      | front # _ \<Rightarrow>
          let new_head =
                (case current_direction s of
                   Up \<Rightarrow> front\<lparr>py := py front - 1\<rparr>
                 | Down \<Rightarrow> front\<lparr>py := py front + 1\<rparr>
                 | Left \<Rightarrow> front\<lparr>px := px front - 1\<rparr>
                 | Right \<Rightarrow> front\<lparr>px := px front + 1\<rparr>);
              inserted = new_head # segments s
          in Some (if \<not> grow_snake s
                   then s\<lparr>segments := butlast inserted\<rparr>
                   else s\<lparr>segments := inserted, grow_snake := False\<rparr>))"

definition set_head :: "Point \<Rightarrow> Snake \<Rightarrow> Snake option" where
  "set_head new_head s =
     (case segments s of
        [] \<Rightarrow> None
      | _ # rest \<Rightarrow> Some (s\<lparr>segments := new_head # rest\<rparr>))"

definition set_direction :: "Direction \<Rightarrow> Snake \<Rightarrow> Snake" where
  "set_direction new_direction s =
     (if (current_direction s = Up \<and> new_direction = Down) \<or>
         (current_direction s = Down \<and> new_direction = Up) \<or>
         (current_direction s = Left \<and> new_direction = Right) \<or>
         (current_direction s = Right \<and> new_direction = Left)
      then s
      else s\<lparr>current_direction := new_direction\<rparr>)"

definition grow :: "Snake \<Rightarrow> Snake" where
  "grow s = s\<lparr>grow_snake := True\<rparr>"

text \<open>
  The loop of \<open>has_self_collision\<close>:
  \<open>for (size_t i = 1; i < segments.size(); ++i)
       if (segments[i].x == head.x && segments[i].y == head.y) return true;\<close>
\<close>

function self_collision_loop :: "Point \<Rightarrow> Point list \<Rightarrow> nat \<Rightarrow> bool" where
  "self_collision_loop head segs i =
     (if i < length segs
      then (if px (segs ! i) = px head \<and> py (segs ! i) = py head
            then True
            else self_collision_loop head segs (i + 1))
      else False)"
  by pat_completeness auto
termination
  by (relation "measure (\<lambda>(head, segs, i). length segs - i)") auto

declare self_collision_loop.simps [simp del]

definition has_self_collision :: "Snake \<Rightarrow> bool option" where
  "has_self_collision s =
     (case segments s of
        [] \<Rightarrow> None
      | head # _ \<Rightarrow> Some (self_collision_loop head (segments s) 1))"

definition get_length :: "Snake \<Rightarrow> int" where
  "get_length s = int (length (segments s))"

section \<open>The Food (main.cpp, lines 162--182)\<close>

record Food =
  position :: Point

text \<open>
  \<open>respawn\<close> draws the two coordinates from \<open>std::uniform_int_distribution\<close>s over
  \<open>[0, GRID_WIDTH - 1]\<close> and \<open>[0, GRID_HEIGHT - 1]\<close>. The random engine is outside the
  model: the two draws are arguments.
\<close>

definition respawn :: "int \<Rightarrow> int \<Rightarrow> Food \<Rightarrow> Food" where
  "respawn draw_x draw_y f = f\<lparr>position := \<lparr>px = draw_x, py = draw_y\<rparr>\<rparr>"

definition Food_init :: "int \<Rightarrow> int \<Rightarrow> Food" where
  "Food_init draw_x draw_y = \<lparr>position = \<lparr>px = draw_x, py = draw_y\<rparr>\<rparr>"

section \<open>Key bindings and the facts of one frame\<close>

text \<open>The key codes of raylib.h that the default bindings use.\<close>

definition KEY_ESCAPE :: int where [simp]: "KEY_ESCAPE = 256"
definition KEY_RIGHT :: int where [simp]: "KEY_RIGHT = 262"
definition KEY_LEFT :: int where [simp]: "KEY_LEFT = 263"
definition KEY_DOWN :: int where [simp]: "KEY_DOWN = 264"
definition KEY_UP :: int where [simp]: "KEY_UP = 265"
definition KEY_A :: int where [simp]: "KEY_A = 65"
definition KEY_D :: int where [simp]: "KEY_D = 68"
definition KEY_S :: int where [simp]: "KEY_S = 83"
definition KEY_W :: int where [simp]: "KEY_W = 87"

record KeyBindings =
  pause :: "int list"
  resume :: "int list"
  up :: "int list"
  down :: "int list"
  left :: "int list"
  right :: "int list"

definition KeyBindings_init :: KeyBindings where
  "KeyBindings_init =
     \<lparr>pause = [KEY_ESCAPE], resume = [KEY_ESCAPE],
      up = [KEY_UP, KEY_W], down = [KEY_DOWN, KEY_S],
      left = [KEY_LEFT, KEY_A], right = [KEY_RIGHT, KEY_D]\<rparr>"

text \<open>
  raylib's \<open>Rectangle\<close>. Its fields are floats in the source; every rectangle of the
  update functions has integer coordinates.
\<close>

record Rectangle =
  rx :: int
  ry :: int
  width :: int
  height :: int

text \<open>
  Time points of \<open>std::chrono::steady_clock\<close> are counts of nanoseconds (the clock's
  period in libstdc++, libc++ and the MSVC library).
\<close>

type_synonym time_point = int

definition milliseconds :: "int \<Rightarrow> int" where
  "milliseconds n = n * 1000000"

text \<open>
  \<open>duration_cast<milliseconds>(d).count()\<close>: the quotient truncated towards zero. The
  conversion to \<open>int\<close> that follows it in \<open>update_countdown\<close> is the identity below
  \<open>2^31\<close> ms and is left out.
\<close>

definition duration_cast_ms :: "int \<Rightarrow> int" where
  "duration_cast_ms d = (if 0 \<le> d then d div 1000000 else - ((- d) div 1000000))"

text \<open>
  What raylib, the clock and the random engine answer during one call of \<open>Game::update\<close>:
  \<^item> \<open>IsKeyDown\<close>, \<open>IsKeyPressed\<close>, \<open>GetKeyPressed\<close>, and \<open>IsMouseButtonPressed\<close>,
    \<open>IsMouseButtonDown\<close> for \<open>MOUSE_LEFT_BUTTON\<close>;
  \<^item> \<open>CheckCollisionMouseRec r\<close> is \<open>CheckCollisionPointRec(GetMousePosition(), r)\<close>;
  \<^item> \<open>length_slider_steps\<close> and \<open>tick_slider_steps\<close> are the values of
    \<open>static_cast<int>(pos * 9.0f)\<close> and \<open>static_cast<int>(pos * 450.0f)\<close> in
    \<open>update_settings\<close>, whose float arithmetic on the mouse abscissa is outside the model;
  \<^item> \<open>steady_clock_now\<close> is the first reading of the clock in the frame and
    \<open>steady_clock_now2\<close> the second one (only \<open>update_countdown\<close> reads twice);
  \<^item> \<open>dist_x\<close>, \<open>dist_y\<close> are the draws of \<open>Food::respawn\<close>.
\<close>

record Frame =
  IsKeyDown :: "int \<Rightarrow> bool"
  IsKeyPressed :: "int \<Rightarrow> bool"
  GetKeyPressed :: int
  IsMouseButtonPressed :: bool
  IsMouseButtonDown :: bool
  CheckCollisionMouseRec :: "Rectangle \<Rightarrow> bool"
  length_slider_steps :: int
  tick_slider_steps :: int
  steady_clock_now :: time_point
  steady_clock_now2 :: time_point
  dist_x :: int
  dist_y :: int

section \<open>The Game (main.cpp, lines 184--448)\<close>

text \<open>
  The fields of \<open>class Game\<close>, without \<open>pause_texture\<close>, which no update function reads
  or writes.
\<close>

record Game =
  app_state :: GameState
  previous_state :: GameState
  initial_snake_length :: int
  tick_rate_ms :: int
  wrapping_enabled :: bool
  best_length :: int
  countdown_duration_ms :: int
  countdown_start_time :: time_point
  snake :: Snake
  food :: Food
  last_move_time :: time_point
  key_bindings :: KeyBindings
  current_edit_action :: int

text \<open>
  The constructor. Members are initialised in the order of their declaration, so
  \<open>snake{ initial_snake_length }\<close> sees the value 3. \<open>last_move_time\<close> is
  default-constructed: the clock's epoch. The arguments are the reading of the clock and
  the two draws of \<open>Food()\<close>.
\<close>

definition Game_init :: "time_point \<Rightarrow> int \<Rightarrow> int \<Rightarrow> Game" where
  "Game_init t0 draw_x draw_y =
     \<lparr>app_state = StartMenu,
      previous_state = StartMenu,
      initial_snake_length = 3,
      tick_rate_ms = 100,
      wrapping_enabled = True,
      best_length = 0,
      countdown_duration_ms = 3000,
      countdown_start_time = t0,
      snake = Snake_init 3,
      food = Food_init draw_x draw_y,
      last_move_time = 0,
      key_bindings = KeyBindings_init,
      current_edit_action = - 1\<rparr>"

fun is_action_down :: "Frame \<Rightarrow> int list \<Rightarrow> bool" where
  "is_action_down inp [] = False"
| "is_action_down inp (key # keys) =
     (if IsKeyDown inp key then True else is_action_down inp keys)"

fun is_action_pressed :: "Frame \<Rightarrow> int list \<Rightarrow> bool" where
  "is_action_pressed inp [] = False"
| "is_action_pressed inp (key # keys) =
     (if IsKeyPressed inp key then True else is_action_pressed inp keys)"

definition is_mouse_in_rect :: "Frame \<Rightarrow> Rectangle \<Rightarrow> bool" where
  "is_mouse_in_rect inp rect = CheckCollisionMouseRec inp rect"

text \<open>\<open>std::clamp(v, lo, hi)\<close>.\<close>

definition clamp :: "int \<Rightarrow> int \<Rightarrow> int \<Rightarrow> int" where
  "clamp v lo hi = (if v < lo then lo else if hi < v then hi else v)"

definition update_start_menu :: "Frame \<Rightarrow> Game \<Rightarrow> Game" where
  "update_start_menu inp g =
     (let button_count = 3;
          spacing = 20;
          total_height = button_count * BUTTON_HEIGHT + (button_count - 1) * spacing;
          start_y = (SCREEN_HEIGHT - total_height) div 2;
          start_x = SCREEN_WIDTH div 2 - BUTTON_WIDTH div 2;
          play_button =
            \<lparr>rx = start_x, ry = start_y, width = BUTTON_WIDTH, height = BUTTON_HEIGHT\<rparr>;
          settings_button =
            \<lparr>rx = start_x, ry = start_y + BUTTON_HEIGHT + spacing,
             width = BUTTON_WIDTH, height = BUTTON_HEIGHT\<rparr>;
          quit_button =
            \<lparr>rx = start_x, ry = start_y + 2 * (BUTTON_HEIGHT + spacing),
             width = BUTTON_WIDTH, height = BUTTON_HEIGHT\<rparr>
      in if IsMouseButtonPressed inp then
           if is_mouse_in_rect inp play_button then
             g\<lparr>countdown_start_time := steady_clock_now inp, app_state := Countdown\<rparr>
           else if is_mouse_in_rect inp settings_button then
             g\<lparr>previous_state := StartMenu, app_state := Settings\<rparr>
           else if is_mouse_in_rect inp quit_button then
             g \<comment> \<open>\<open>CloseWindow()\<close>: the fields of the Game stay as they are\<close>
           else g
         else g)"

definition update_settings :: "Frame \<Rightarrow> Game \<Rightarrow> Game" where
  "update_settings inp g =
     (let snake_length_slider = \<lparr>rx = 100, ry = 150, width = 200, height = 10\<rparr>;
          tick_rate_slider = \<lparr>rx = 100, ry = 250, width = 200, height = 10\<rparr>;
          wrapping_checkbox = \<lparr>rx = 100, ry = 350, width = 20, height = 20\<rparr>;
          keybinds_button = \<lparr>rx = 100, ry = 410, width = 200, height = 40\<rparr>;
          g = (if IsMouseButtonDown inp then
                 let g = (if CheckCollisionMouseRec inp snake_length_slider then
                            let new_value = 1 + length_slider_steps inp
                            in g\<lparr>initial_snake_length := clamp new_value 1 10\<rparr>
                          else g);
                     g = (if CheckCollisionMouseRec inp tick_rate_slider then
                            let new_rate = 50 + tick_slider_steps inp
                            in g\<lparr>tick_rate_ms := clamp new_rate 50 500\<rparr>
                          else g)
                 in g
               else g)
      in if IsMouseButtonPressed inp then
           let g = (if is_mouse_in_rect inp wrapping_checkbox
                    then g\<lparr>wrapping_enabled := \<not> wrapping_enabled g\<rparr> else g);
               g = (if is_mouse_in_rect inp keybinds_button
                    then g\<lparr>app_state := Keybinds\<rparr> else g);
               back_button =
                 \<lparr>rx = SCREEN_WIDTH - 120, ry = SCREEN_HEIGHT - 60, width = 100, height = 40\<rparr>
           in if is_mouse_in_rect inp back_button
              then g\<lparr>app_state := previous_state g\<rparr> else g
         else g)"

text \<open>
  The loop of \<open>update_keybinds\<close> over the six entry rows; it yields the new value of
  \<open>current_edit_action\<close>.
\<close>

function keybind_entry_loop :: "Frame \<Rightarrow> int \<Rightarrow> int \<Rightarrow> int" where
  "keybind_entry_loop inp i edit_action =
     (if i < 6 then
        let start_y = 100; spacing = 50; start_x = 100; entry_width = 400;
            entry_rect =
              \<lparr>rx = start_x, ry = start_y + i * spacing, width = entry_width, height = 40\<rparr>
        in if CheckCollisionMouseRec inp entry_rect then i
           else keybind_entry_loop inp (i + 1) edit_action
      else edit_action)"
  by pat_completeness auto
termination
  by (relation "measure (\<lambda>(inp, i, edit_action). nat (6 - i))") auto

declare keybind_entry_loop.simps [simp del]

definition update_keybinds :: "Frame \<Rightarrow> Game \<Rightarrow> Game" where
  "update_keybinds inp g =
     (let back_button =
            \<lparr>rx = SCREEN_WIDTH - 120, ry = SCREEN_HEIGHT - 60, width = 100, height = 40\<rparr>;
          g = (if IsMouseButtonPressed inp then
                 let g = g\<lparr>current_edit_action :=
                              keybind_entry_loop inp 0 (current_edit_action g)\<rparr>
                 in if is_mouse_in_rect inp back_button
                    then g\<lparr>app_state := Settings\<rparr> else g
               else g)
      in if current_edit_action g \<noteq> - 1 then
           let new_key = GetKeyPressed inp
           in if new_key \<noteq> 0 then
                let kb = key_bindings g;
                    kb = (if current_edit_action g = 0 then kb\<lparr>pause := [new_key]\<rparr>
                          else if current_edit_action g = 1 then kb\<lparr>resume := [new_key]\<rparr>
                          else if current_edit_action g = 2 then kb\<lparr>up := [new_key]\<rparr>
                          else if current_edit_action g = 3 then kb\<lparr>down := [new_key]\<rparr>
                          else if current_edit_action g = 4 then kb\<lparr>left := [new_key]\<rparr>
                          else if current_edit_action g = 5 then kb\<lparr>right := [new_key]\<rparr>
                          else kb)
                in g\<lparr>key_bindings := kb, current_edit_action := - 1\<rparr>
              else g
         else g)"

definition update_countdown :: "Frame \<Rightarrow> Game \<Rightarrow> Game" where
  "update_countdown inp g =
     (let now = steady_clock_now inp;
          elapsed_ms = duration_cast_ms (now - countdown_start_time g)
      in if elapsed_ms \<ge> countdown_duration_ms g then
           g\<lparr>snake := Snake_init (initial_snake_length g),
             food := respawn (dist_x inp) (dist_y inp) (food g),
             last_move_time := steady_clock_now2 inp,
             app_state := Playing\<rparr>
         else g)"

definition game_over :: "Game \<Rightarrow> Game" where
  "game_over g =
     (let current_length = get_length (snake g)
      in g\<lparr>best_length := max (best_length g) current_length, app_state := GameOver\<rparr>)"

text \<open>Lines 366--370 of \<open>update_playing\<close>: the corrected head and the flag \<open>wrapped\<close>.\<close>

definition wrap_head :: "Point \<Rightarrow> Point \<times> bool" where
  "wrap_head head =
     (let wrapped = False;
          (head, wrapped) =
            (if px head < 0 then (head\<lparr>px := GRID_WIDTH - 1\<rparr>, True)
             else if px head \<ge> GRID_WIDTH then (head\<lparr>px := 0\<rparr>, True)
             else (head, wrapped));
          (head, wrapped) =
            (if py head < 0 then (head\<lparr>py := GRID_HEIGHT - 1\<rparr>, True)
             else if py head \<ge> GRID_HEIGHT then (head\<lparr>py := 0\<rparr>, True)
             else (head, wrapped))
      in (head, wrapped))"

text \<open>
  Lines 375--378 of \<open>update_playing\<close>: the self-collision check and the food, with the
  local variable \<open>head\<close>.
\<close>

definition collide_and_eat :: "Frame \<Rightarrow> Point \<Rightarrow> Game \<Rightarrow> Game option" where
  "collide_and_eat inp head g =
     (case has_self_collision (snake g) of
        None \<Rightarrow> None
      | Some True \<Rightarrow> Some (game_over g)
      | Some False \<Rightarrow>
          Some (if px head = px (position (food g)) \<and> py head = py (position (food g))
                then g\<lparr>snake := grow (snake g),
                       food := respawn (dist_x inp) (dist_y inp) (food g)\<rparr>
                else g))"

text \<open>Lines 362--378 of \<open>update_playing\<close>: the body of the \<open>if\<close> on the tick interval.\<close>

definition simulation_tick :: "Frame \<Rightarrow> time_point \<Rightarrow> Game \<Rightarrow> Game option" where
  "simulation_tick inp now g =
     (case Snake_update (snake g) of
        None \<Rightarrow> None
      | Some s \<Rightarrow>
          let g = g\<lparr>snake := s, last_move_time := now\<rparr>
          in (case get_head (snake g) of
                None \<Rightarrow> None
              | Some head \<Rightarrow>
                  if wrapping_enabled g then
                    let (head, wrapped) = wrap_head head
                    in if wrapped then
                         (case set_head head (snake g) of
                            None \<Rightarrow> None
                          | Some s' \<Rightarrow> collide_and_eat inp head (g\<lparr>snake := s'\<rparr>))
                       else collide_and_eat inp head g
                  else if px head < 0 \<or> px head \<ge> GRID_WIDTH \<or>
                          py head < 0 \<or> py head \<ge> GRID_HEIGHT
                  then Some (game_over g)
                  else collide_and_eat inp head g))"

definition update_playing :: "Frame \<Rightarrow> Game \<Rightarrow> Game option" where
  "update_playing inp g =
     (if is_action_pressed inp (pause (key_bindings g)) then Some (g\<lparr>app_state := Pause\<rparr>)
      else
        let g = (if is_action_down inp (up (key_bindings g))
                 then g\<lparr>snake := set_direction Up (snake g)\<rparr>
                 else if is_action_down inp (down (key_bindings g))
                 then g\<lparr>snake := set_direction Down (snake g)\<rparr>
                 else if is_action_down inp (left (key_bindings g))
                 then g\<lparr>snake := set_direction Left (snake g)\<rparr>
                 else if is_action_down inp (right (key_bindings g))
                 then g\<lparr>snake := set_direction Right (snake g)\<rparr>
                 else g);
            now = steady_clock_now inp
        in if now - last_move_time g \<ge> milliseconds (tick_rate_ms g)
           then simulation_tick inp now g
           else Some g)"

definition update_pause :: "Frame \<Rightarrow> Game \<Rightarrow> Game" where
  "update_pause inp g =
     (let button_count = 4;
          spacing = 20;
          total_button_height = button_count * BUTTON_HEIGHT + (button_count - 1) * spacing;
          start_x = SCREEN_WIDTH div 2 - BUTTON_WIDTH div 2;
          title_bottom_y = 80 + 60;
          available_height = SCREEN_HEIGHT - title_bottom_y - 20;
          start_y = title_bottom_y + (available_height - total_button_height) div 2 + 20;
          resume_button =
            \<lparr>rx = start_x, ry = start_y, width = BUTTON_WIDTH, height = BUTTON_HEIGHT\<rparr>;
          settings_button =
            \<lparr>rx = start_x, ry = start_y + 1 * (BUTTON_HEIGHT + spacing),
             width = BUTTON_WIDTH, height = BUTTON_HEIGHT\<rparr>;
          restart_button =
            \<lparr>rx = start_x, ry = start_y + 2 * (BUTTON_HEIGHT + spacing),
             width = BUTTON_WIDTH, height = BUTTON_HEIGHT\<rparr>;
          main_menu_button =
            \<lparr>rx = start_x, ry = start_y + 3 * (BUTTON_HEIGHT + spacing),
             width = BUTTON_WIDTH, height = BUTTON_HEIGHT\<rparr>;
          g = (if IsMouseButtonPressed inp then
                 if is_mouse_in_rect inp resume_button then g\<lparr>app_state := Playing\<rparr>
                 else if is_mouse_in_rect inp settings_button
                 then g\<lparr>previous_state := Pause, app_state := Settings\<rparr>
                 else if is_mouse_in_rect inp restart_button
                 then g\<lparr>app_state := ConfirmRestart\<rparr>
                 else if is_mouse_in_rect inp main_menu_button
                 then g\<lparr>app_state := ConfirmMainMenu\<rparr>
                 else g
               else g)
      in if is_action_pressed inp (resume (key_bindings g))
         then g\<lparr>app_state := Playing\<rparr>
         else g)"

definition update_confirm_restart :: "Frame \<Rightarrow> Game \<Rightarrow> Game" where
  "update_confirm_restart inp g =
     (let yes_button =
            \<lparr>rx = SCREEN_WIDTH div 2 - BUTTON_WIDTH - 10, ry = SCREEN_HEIGHT div 2 + 40,
             width = BUTTON_WIDTH, height = BUTTON_HEIGHT\<rparr>;
          no_button =
            \<lparr>rx = SCREEN_WIDTH div 2 + 10, ry = SCREEN_HEIGHT div 2 + 40,
             width = BUTTON_WIDTH, height = BUTTON_HEIGHT\<rparr>
      in if IsMouseButtonPressed inp then
           if is_mouse_in_rect inp yes_button then
             g\<lparr>snake := Snake_init (initial_snake_length g),
               food := respawn (dist_x inp) (dist_y inp) (food g),
               last_move_time := steady_clock_now inp,
               app_state := Playing\<rparr>
           else if is_mouse_in_rect inp no_button then g\<lparr>app_state := Pause\<rparr>
           else g
         else g)"

definition update_confirm_main_menu :: "Frame \<Rightarrow> Game \<Rightarrow> Game" where
  "update_confirm_main_menu inp g =
     (let yes_button =
            \<lparr>rx = SCREEN_WIDTH div 2 - BUTTON_WIDTH - 10, ry = SCREEN_HEIGHT div 2 + 40,
             width = BUTTON_WIDTH, height = BUTTON_HEIGHT\<rparr>;
          no_button =
            \<lparr>rx = SCREEN_WIDTH div 2 + 10, ry = SCREEN_HEIGHT div 2 + 40,
             width = BUTTON_WIDTH, height = BUTTON_HEIGHT\<rparr>
      in if IsMouseButtonPressed inp then
           if is_mouse_in_rect inp yes_button then g\<lparr>app_state := StartMenu\<rparr>
           else if is_mouse_in_rect inp no_button then g\<lparr>app_state := Pause\<rparr>
           else g
         else g)"

definition update_game_over :: "Frame \<Rightarrow> Game \<Rightarrow> Game" where
  "update_game_over inp g =
     (if IsMouseButtonPressed inp then g\<lparr>app_state := StartMenu\<rparr> else g)"

text \<open>\<open>Game::update\<close>: one frame. \<open>None\<close> is undefined behaviour inside \<open>update_playing\<close>.\<close>

definition update :: "Frame \<Rightarrow> Game \<Rightarrow> Game option" where
  "update inp g =
     (case app_state g of
        StartMenu \<Rightarrow> Some (update_start_menu inp g)
      | Settings \<Rightarrow> Some (update_settings inp g)
      | Keybinds \<Rightarrow> Some (update_keybinds inp g)
      | Countdown \<Rightarrow> Some (update_countdown inp g)
      | Playing \<Rightarrow> update_playing inp g
      | Pause \<Rightarrow> Some (update_pause inp g)
      | ConfirmRestart \<Rightarrow> Some (update_confirm_restart inp g)
      | ConfirmMainMenu \<Rightarrow> Some (update_confirm_main_menu inp g)
      | GameOver \<Rightarrow> Some (update_game_over inp g))"

text \<open>
  The states of a run: \<open>Game::run\<close> constructs the Game and calls \<open>update\<close> once per frame
  (\<open>draw\<close> changes no field).
\<close>

inductive reachable :: "Game \<Rightarrow> bool" where
  init: "reachable (Game_init t0 draw_x draw_y)"
| frame: "reachable g \<Longrightarrow> update inp g = Some g' \<Longrightarrow> reachable g'"

text \<open>
  A finite prefix of the loop of \<open>Game::run\<close>: the frames in order, \<open>None\<close> as soon as
  one of them is undefined.
\<close>

fun run :: "Frame list \<Rightarrow> Game \<Rightarrow> Game option" where
  "run [] g = Some g"
| "run (inp # inps) g = (case update inp g of None \<Rightarrow> None | Some g' \<Rightarrow> run inps g')"

section \<open>Notions of the specification\<close>

text \<open>The opposite heading, as the specification names it: Up/Down and Left/Right.\<close>

fun opposite :: "Direction \<Rightarrow> Direction" where
  "opposite Up = Down"
| "opposite Down = Up"
| "opposite Left = Right"
| "opposite Right = Left"

text \<open>One grid unit along a heading: the cell the specification expects \<open>advance()\<close> to reach.\<close>

fun step_cell :: "Direction \<Rightarrow> Point \<Rightarrow> Point" where
  "step_cell Up p = \<lparr>px = px p, py = py p - 1\<rparr>"
| "step_cell Down p = \<lparr>px = px p, py = py p + 1\<rparr>"
| "step_cell Left p = \<lparr>px = px p - 1, py = py p\<rparr>"
| "step_cell Right p = \<lparr>px = px p + 1, py = py p\<rparr>"

text \<open>A valid grid cell: \<open>[0, GRID_WIDTH) \<times> [0, GRID_HEIGHT)\<close>.\<close>

definition in_grid :: "Point \<Rightarrow> bool" where
  "in_grid p \<longleftrightarrow> 0 \<le> px p \<and> px p < GRID_WIDTH \<and> 0 \<le> py p \<and> py p < GRID_HEIGHT"

text \<open>A logical action is held when one of the keys bound to it is down.\<close>

definition held :: "Frame \<Rightarrow> int list \<Rightarrow> bool" where
  "held inp keys \<longleftrightarrow> (\<exists>key \<in> set keys. IsKeyDown inp key)"

text \<open>
  The movement the specification lets take effect: the first held action in the order up,
  down, left, right, if any.
\<close>

definition first_held :: "Frame \<Rightarrow> KeyBindings \<Rightarrow> Direction option" where
  "first_held inp kb =
     (if held inp (up kb) then Some Up
      else if held inp (down kb) then Some Down
      else if held inp (left kb) then Some Left
      else if held inp (right kb) then Some Right
      else None)"

text \<open>The heading after a request, with the reversal guard.\<close>

fun steer :: "Direction option \<Rightarrow> Direction \<Rightarrow> Direction" where
  "steer None heading = heading"
| "steer (Some d) heading = (if d = opposite heading then heading else d)"

section \<open>Auxiliary definitions of the proofs\<close>

text \<open>The snake after one \<open>Snake::update\<close> whose new head is \<open>new_head\<close>.\<close>

definition advanced :: "Snake \<Rightarrow> Point \<Rightarrow> Snake" where
  "advanced s new_head =
     s\<lparr>segments := new_head # (if grow_snake s then segments s else butlast (segments s)),
       grow_snake := False\<rparr>"

text \<open>The Game after lines 356--359 of \<open>update_playing\<close>.\<close>

definition steered :: "Frame \<Rightarrow> Game \<Rightarrow> Game" where
  "steered inp g =
     g\<lparr>snake := (snake g)\<lparr>current_direction :=
        steer (first_held inp (key_bindings g)) (current_direction (snake g))\<rparr>\<rparr>"

definition self_hit :: "Snake \<Rightarrow> bool" where
  "self_hit s \<longleftrightarrow> hd (segments s) \<in> set (tl (segments s))"

text \<open>
  The invariant of the reachable states. A session is under way in the states Playing,
  Pause and the two confirmation dialogs, and in Settings and Keybinds when they were
  opened from Pause; then the head of the snake is a valid grid cell.
\<close>

definition in_session :: "Game \<Rightarrow> bool" where
  "in_session g \<longleftrightarrow>
     app_state g \<in> {Playing, Pause, ConfirmRestart, ConfirmMainMenu} \<or>
     (app_state g \<in> {Settings, Keybinds} \<and> previous_state g = Pause)"

definition game_inv :: "Game \<Rightarrow> bool" where
  "game_inv g \<longleftrightarrow>
     segments (snake g) \<noteq> [] \<and>
     1 \<le> initial_snake_length g \<and>
     (previous_state g = StartMenu \<or> previous_state g = Pause) \<and>
     (in_session g \<longrightarrow> in_grid (hd (segments (snake g))))"

text \<open>
  The cells of the snake stay next to the grid: the head at most one step outside, the
  other segments inside. This is what keeps the coordinates far from the limits of the
  C++ \<open>int\<close>.
\<close>

definition near_grid :: "Point \<Rightarrow> bool" where
  "near_grid p \<longleftrightarrow> - 1 \<le> px p \<and> px p \<le> GRID_WIDTH \<and> - 1 \<le> py p \<and> py p \<le> GRID_HEIGHT"

definition cells_inv :: "Game \<Rightarrow> bool" where
  "cells_inv g \<longleftrightarrow>
     initial_snake_length g \<le> 10 \<and>
     near_grid (hd (segments (snake g))) \<and>
     (\<forall>p \<in> set (tl (segments (snake g))). in_grid p)"

section \<open>Concrete frames and games\<close>

text \<open>A frame at clock reading \<open>t\<close> in which no key and no mouse button is active.\<close>

definition no_input :: "time_point \<Rightarrow> Frame" where
  "no_input t =
     \<lparr>IsKeyDown = (\<lambda>key. False), IsKeyPressed = (\<lambda>key. False), GetKeyPressed = 0,
      IsMouseButtonPressed = False, IsMouseButtonDown = False,
      CheckCollisionMouseRec = (\<lambda>rect. False),
      length_slider_steps = 0, tick_slider_steps = 0,
      steady_clock_now = t, steady_clock_now2 = t, dist_x = 7, dist_y = 7\<rparr>"

text \<open>A click on the Play button of the start menu.\<close>

definition click_play :: "time_point \<Rightarrow> Frame" where
  "click_play t = (no_input t)
     \<lparr>IsMouseButtonPressed := True,
      CheckCollisionMouseRec := (\<lambda>rect. rect = \<lparr>rx = 300, ry = 205, width = 200, height = 50\<rparr>)\<rparr>"

text \<open>
  The Game at the start of a session: constructed at clock reading 0, Play clicked at
  once, countdown over after 3000 ms.
\<close>

definition fresh_session :: Game where
  "fresh_session = (Game_init 0 7 7)\<lparr>last_move_time := milliseconds 3000, app_state := Playing\<rparr>"

text \<open>The same session nineteen ticks later: the head is in the last column.\<close>

definition east_edge :: Game where
  "east_edge = fresh_session
     \<lparr>snake := \<lparr>segments = [\<lparr>px = 39, py = 15\<rparr>, \<lparr>px = 38, py = 15\<rparr>, \<lparr>px = 37, py = 15\<rparr>],
                 current_direction = Right, grow_snake = False\<rparr>,
      last_move_time := milliseconds 4900\<rparr>"

text \<open>
  A first session in which the snake eats once and then runs into itself at length 4, the
  frames that lead into a second session, and the two Games they end in.
\<close>

definition first_session_frames :: "Frame list" where
  "first_session_frames =
     [click_play 0,
      (no_input (milliseconds 3000))\<lparr>dist_x := 22, dist_y := 15\<rparr>,
      no_input (milliseconds 3100),
      no_input (milliseconds 3200),
      no_input (milliseconds 3300),
      (no_input (milliseconds 3310))\<lparr>IsKeyDown := (\<lambda>key. key = KEY_UP)\<rparr>,
      (no_input (milliseconds 3400))\<lparr>IsKeyDown := (\<lambda>key. key = KEY_LEFT)\<rparr>]"

definition second_session_frames :: "Frame list" where
  "second_session_frames =
     [(no_input (milliseconds 5000))\<lparr>IsMouseButtonPressed := True\<rparr>,
      click_play (milliseconds 6000),
      no_input (milliseconds 9000),
      (no_input (milliseconds 9010))\<lparr>IsKeyDown := (\<lambda>key. key = KEY_UP)\<rparr>]"

definition first_game_over :: Game where
  "first_game_over = fresh_session
     \<lparr>snake := \<lparr>segments = [\<lparr>px = 22, py = 15\<rparr>, \<lparr>px = 23, py = 15\<rparr>, \<lparr>px = 22, py = 15\<rparr>,
                              \<lparr>px = 21, py = 15\<rparr>],
                 current_direction = Left, grow_snake = False\<rparr>,
      last_move_time := milliseconds 3400,
      best_length := 4,
      app_state := GameOver\<rparr>"

definition second_session :: Game where
  "second_session = fresh_session
     \<lparr>snake := (snake fresh_session)\<lparr>current_direction := Up\<rparr>,
      countdown_start_time := milliseconds 6000,
      last_move_time := milliseconds 9000,
      best_length := 4\<rparr>"

section \<open>Properties of the Snake\<close>

lemma Snake_init_loop_upto:
  "Snake_init_loop i n segs =
     segs @ map (\<lambda>k. \<lparr>px = GRID_WIDTH div 2 - k, py = GRID_HEIGHT div 2\<rparr>) [i..n - 1]"
proof (induction i n segs rule: Snake_init_loop.induct)
  case (1 i n segs)
  show ?case
  proof (cases "i < n")
    case True
    then have "[i..n - 1] = i # [i + 1..n - 1]"
      by (simp add: upto_rec1)
    with True 1 show ?thesis
      by (subst Snake_init_loop.simps) simp
  next
    case False
    then show ?thesis
      by (subst Snake_init_loop.simps) simp
  qed
qed

lemma segments_Snake_init:
  "segments (Snake_init n) =
     map (\<lambda>k. \<lparr>px = GRID_WIDTH div 2 - k, py = GRID_HEIGHT div 2\<rparr>) [0..n - 1]"
  by (simp add: Snake_init_def Snake_init_loop_upto)

lemma length_Snake_init: "length (segments (Snake_init n)) = nat n"
  by (simp add: segments_Snake_init)

lemma distinct_Snake_init: "distinct (segments (Snake_init n))"
  by (simp add: segments_Snake_init distinct_map inj_on_def)

lemma self_collision_loop_iff:
  "self_collision_loop head segs i \<longleftrightarrow> (\<exists>j. i \<le> j \<and> j < length segs \<and> segs ! j = head)"
proof (induction head segs i rule: self_collision_loop.induct)
  case (1 head segs i)
  show ?case
  proof (cases "i < length segs")
    case False
    then show ?thesis
      by (subst self_collision_loop.simps) auto
  next
    case True
    show ?thesis
    proof (cases "px (segs ! i) = px head \<and> py (segs ! i) = py head")
      case hit: True
      then have "segs ! i = head"
        by simp
      with True hit show ?thesis
        by (subst self_collision_loop.simps) auto
    next
      case miss: False
      then have ne: "segs ! i \<noteq> head"
        by auto
      have "self_collision_loop head segs i = self_collision_loop head segs (i + 1)"
        using True miss by (subst self_collision_loop.simps) auto
      also have "\<dots> \<longleftrightarrow> (\<exists>j. i + 1 \<le> j \<and> j < length segs \<and> segs ! j = head)"
        using 1 True miss by simp
      also have "\<dots> \<longleftrightarrow> (\<exists>j. i \<le> j \<and> j < length segs \<and> segs ! j = head)"
      proof
        assume "\<exists>j. i + 1 \<le> j \<and> j < length segs \<and> segs ! j = head"
        then show "\<exists>j. i \<le> j \<and> j < length segs \<and> segs ! j = head"
          by (metis add_leD1)
      next
        assume "\<exists>j. i \<le> j \<and> j < length segs \<and> segs ! j = head"
        then obtain j where j: "i \<le> j" "j < length segs" "segs ! j = head"
          by blast
        with ne have "j \<noteq> i"
          by auto
        with j have "i + 1 \<le> j"
          by simp
        with j show "\<exists>j. i + 1 \<le> j \<and> j < length segs \<and> segs ! j = head"
          by blast
      qed
      finally show ?thesis .
    qed
  qed
qed


lemma has_self_collision_nonempty:
  assumes "segments s \<noteq> []"
  shows "has_self_collision s =
           Some (\<exists>i. 0 < i \<and> i < length (segments s) \<and> segments s ! i = segments s ! 0)"
proof -
  from assms obtain front rest where segs: "segments s = front # rest"
    by (cases "segments s") auto
  have "(\<exists>j. 1 \<le> j \<and> j < length (front # rest) \<and> (front # rest) ! j = front) \<longleftrightarrow>
        (\<exists>i. 0 < i \<and> i < length (front # rest) \<and> (front # rest) ! i = (front # rest) ! 0)"
    by (auto simp: Suc_le_eq)
  then show ?thesis
    by (simp add: has_self_collision_def segs self_collision_loop_iff
        del: length_Cons nth_Cons_Suc)
qed

lemma Snake_init_no_self_collision:
  assumes "1 \<le> n"
  shows "has_self_collision (Snake_init n) = Some False"
proof -
  have ne: "segments (Snake_init n) \<noteq> []"
    using assms length_Snake_init [of n] by auto
  have "\<not> (\<exists>i. 0 < i \<and> i < length (segments (Snake_init n)) \<and>
              segments (Snake_init n) ! i = segments (Snake_init n) ! 0)"
  proof
    assume "\<exists>i. 0 < i \<and> i < length (segments (Snake_init n)) \<and>
              segments (Snake_init n) ! i = segments (Snake_init n) ! 0"
    then obtain i where i: "0 < i" "i < length (segments (Snake_init n))"
        "segments (Snake_init n) ! i = segments (Snake_init n) ! 0"
      by blast
    from ne have "0 < length (segments (Snake_init n))"
      by simp
    with distinct_Snake_init [of n] i have "i = 0"
      by (simp add: nth_eq_iff_index_eq)
    with i show False
      by simp
  qed
  with has_self_collision_nonempty [OF ne] show ?thesis
    by simp
qed

text \<open>
  Claim C4. For every snake state (a sequence of at least one Point of the source) on
  which the increment of \<open>Snake::update\<close> does not overflow \<open>int\<close>, \<open>Snake::update\<close> (the
  specification's \<open>advance()\<close>) returns a snake whose new head is the old head moved by
  exactly one grid unit along the current heading. If the growth flag was clear, the
  segments behind the new head are the old segments without the tail and the length is
  unchanged; if it was set, they are all the old segments, the length grows by exactly
  one and the flag is cleared. The old segments keep their positions (they are the tail of
  the new sequence, in order), the heading is unchanged, and the result is again a
  sequence of Points of the source. At the limits of \<open>int\<close> the increment overflows and the
  C++ is undefined; no snake of a reachable Game is there (\<open>reachable_advance_defined\<close>).
\<close>

theorem Snake_update_advances:
  assumes "segments s \<noteq> []"
    and "\<forall>p \<in> set (segments s). int_point p"
    and "int_point (step_cell (current_direction s) (hd (segments s)))"
  shows "\<exists>s'. Snake_update s = Some s' \<and>
           hd (segments s') = step_cell (current_direction s) (hd (segments s)) \<and>
           \<bar>px (hd (segments s')) - px (hd (segments s))\<bar>
             + \<bar>py (hd (segments s')) - py (hd (segments s))\<bar> = 1 \<and>
           tl (segments s') = (if grow_snake s then segments s else butlast (segments s)) \<and>
           length (segments s') =
             (if grow_snake s then length (segments s) + 1 else length (segments s)) \<and>
           \<not> grow_snake s' \<and>
           current_direction s' = current_direction s \<and>
           (\<forall>p \<in> set (segments s'). int_point p)"
proof -
  from assms(1) obtain front rest where segs: "segments s = front # rest"
    by (cases "segments s") auto
  have keep: "\<forall>p \<in> set (butlast (front # rest)). int_point p"
    using assms(2) unfolding segs by (blast dest: in_set_butlastD)
  show ?thesis
    using assms(2,3) keep
    by (cases "current_direction s")
      (simp_all add: Snake_update_def segs Let_def int_point_def)
qed

theorem Snake_update_advances_witness:
  "segments \<lparr>segments = [\<lparr>px = 20, py = 15\<rparr>, \<lparr>px = 19, py = 15\<rparr>, \<lparr>px = 18, py = 15\<rparr>],
             current_direction = Down, grow_snake = True\<rparr> \<noteq> [] \<and>
   int_point \<lparr>px = 20, py = 15\<rparr> \<and> int_point \<lparr>px = 19, py = 15\<rparr> \<and>
   int_point \<lparr>px = 18, py = 15\<rparr> \<and>
   int_point (step_cell Down \<lparr>px = 20, py = 15\<rparr>) \<and>
   (\<exists>s'. Snake_update
            \<lparr>segments = [\<lparr>px = 20, py = 15\<rparr>, \<lparr>px = 19, py = 15\<rparr>, \<lparr>px = 18, py = 15\<rparr>],
             current_direction = Down, grow_snake = True\<rparr> = Some s' \<and>
      hd (segments s') = \<lparr>px = 20, py = 16\<rparr> \<and>
      tl (segments s') = [\<lparr>px = 20, py = 15\<rparr>, \<lparr>px = 19, py = 15\<rparr>, \<lparr>px = 18, py = 15\<rparr>] \<and>
      length (segments s') = 4 \<and> \<not> grow_snake s' \<and> current_direction s' = Down)"
proof -
  let ?s = "\<lparr>segments = [\<lparr>px = 20, py = 15\<rparr>, \<lparr>px = 19, py = 15\<rparr>, \<lparr>px = 18, py = 15\<rparr>],
             current_direction = Down, grow_snake = True\<rparr>"
  have h1: "segments ?s \<noteq> []"
    and h2: "\<forall>p \<in> set (segments ?s). int_point p"
    and h3: "int_point (step_cell (current_direction ?s) (hd (segments ?s)))"
    by (simp_all add: int_point_def)
  have pts: "int_point \<lparr>px = 20, py = 15\<rparr>" "int_point \<lparr>px = 19, py = 15\<rparr>"
    "int_point \<lparr>px = 18, py = 15\<rparr>"
    by (simp_all add: int_point_def)
  from Snake_update_advances [OF h1 h2 h3] h1 h3 pts show ?thesis
    by auto
qed

text \<open>
  Claim C6. For every snake and every requested direction \<open>d\<close>, \<open>set_direction d\<close> leaves
  the snake exactly as it is when \<open>d\<close> is the opposite of the current heading (Up/Down,
  Left/Right), and otherwise sets the heading to \<open>d\<close> and changes nothing else.
\<close>

theorem set_direction_reversal_guard:
  "set_direction d s =
     (if d = opposite (current_direction s) then s else s\<lparr>current_direction := d\<rparr>)"
  by (cases d; cases "current_direction s") (simp_all add: set_direction_def)

theorem set_direction_reversal_guard_witness:
  "set_direction Down
     \<lparr>segments = [\<lparr>px = 20, py = 15\<rparr>], current_direction = Up, grow_snake = False\<rparr>
     = \<lparr>segments = [\<lparr>px = 20, py = 15\<rparr>], current_direction = Up, grow_snake = False\<rparr> \<and>
   set_direction Left
     \<lparr>segments = [\<lparr>px = 20, py = 15\<rparr>], current_direction = Up, grow_snake = False\<rparr>
     = \<lparr>segments = [\<lparr>px = 20, py = 15\<rparr>], current_direction = Left, grow_snake = False\<rparr>"
  using set_direction_reversal_guard
    [of Down "\<lparr>segments = [\<lparr>px = 20, py = 15\<rparr>], current_direction = Up, grow_snake = False\<rparr>"]
    set_direction_reversal_guard
    [of Left "\<lparr>segments = [\<lparr>px = 20, py = 15\<rparr>], current_direction = Up, grow_snake = False\<rparr>"]
  by simp

text \<open>
  Claim C8. On a snake with at least one segment, \<open>has_self_collision\<close> returns true if
  and only if the cell of some segment at an index greater than 0 equals the head cell
  (index 0); and for every initial length \<open>n \<ge> 1\<close> the freshly constructed
  \<open>Snake(n)\<close> has a head and reports no self-collision.
\<close>

theorem has_self_collision_spec:
  "(segments s \<noteq> [] \<longrightarrow>
      has_self_collision s =
        Some (\<exists>i. 0 < i \<and> i < length (segments s) \<and> segments s ! i = segments s ! 0)) \<and>
   (1 \<le> n \<longrightarrow>
      segments (Snake_init n) \<noteq> [] \<and> has_self_collision (Snake_init n) = Some False)"
  using has_self_collision_nonempty Snake_init_no_self_collision length_Snake_init [of n]
  by auto

theorem has_self_collision_spec_witness:
  "segments \<lparr>segments = [\<lparr>px = 5, py = 5\<rparr>, \<lparr>px = 5, py = 6\<rparr>, \<lparr>px = 6, py = 6\<rparr>,
                          \<lparr>px = 6, py = 5\<rparr>, \<lparr>px = 5, py = 5\<rparr>],
             current_direction = Left, grow_snake = False\<rparr> \<noteq> [] \<and>
   has_self_collision
     \<lparr>segments = [\<lparr>px = 5, py = 5\<rparr>, \<lparr>px = 5, py = 6\<rparr>, \<lparr>px = 6, py = 6\<rparr>,
                  \<lparr>px = 6, py = 5\<rparr>, \<lparr>px = 5, py = 5\<rparr>],
      current_direction = Left, grow_snake = False\<rparr> = Some True \<and>
   (1::int) \<le> 3 \<and>
   segments (Snake_init 3) \<noteq> [] \<and>
   has_self_collision (Snake_init 3) = Some False"
proof -
  let ?s = "\<lparr>segments = [\<lparr>px = 5, py = 5\<rparr>, \<lparr>px = 5, py = 6\<rparr>, \<lparr>px = 6, py = 6\<rparr>,
                          \<lparr>px = 6, py = 5\<rparr>, \<lparr>px = 5, py = 5\<rparr>],
             current_direction = Left, grow_snake = False\<rparr>"
  have ne: "segments ?s \<noteq> []"
    by simp
  have ex: "\<exists>i. 0 < i \<and> i < length (segments ?s) \<and> segments ?s ! i = segments ?s ! 0"
    by (rule exI [of _ 4]) simp
  from has_self_collision_spec [of ?s 3] ne ex show ?thesis
    by simp
qed

section \<open>Properties of one frame in the Playing state\<close>

lemma set_direction_steer:
  "set_direction d s = s\<lparr>current_direction := steer (Some d) (current_direction s)\<rparr>"
  by (cases d; cases "current_direction s") (simp_all add: set_direction_def)

lemma Snake_update_nonempty:
  assumes "segments s \<noteq> []"
  shows "Snake_update s = Some (advanced s (step_cell (current_direction s) (hd (segments s))))"
proof -
  from assms obtain front rest where segs: "segments s = front # rest"
    by (cases "segments s") auto
  show ?thesis
    by (cases "current_direction s") (simp_all add: Snake_update_def advanced_def segs Let_def)
qed

lemma wrap_head_eq:
  "wrap_head p =
     (\<lparr>px = (if px p < 0 then GRID_WIDTH - 1 else if px p \<ge> GRID_WIDTH then 0 else px p),
       py = (if py p < 0 then GRID_HEIGHT - 1 else if py p \<ge> GRID_HEIGHT then 0 else py p)\<rparr>,
      \<not> in_grid p)"
  by (simp add: wrap_head_def in_grid_def Let_def)

lemma in_grid_wrap_head: "in_grid (fst (wrap_head p))"
  by (simp add: wrap_head_eq in_grid_def)

lemma is_action_down_held: "is_action_down inp keys = held inp keys"
  by (induction keys) (auto simp: held_def)

lemma sampling_eq:
  "(if is_action_down inp (up (key_bindings g))
    then g\<lparr>snake := set_direction Up (snake g)\<rparr>
    else if is_action_down inp (down (key_bindings g))
    then g\<lparr>snake := set_direction Down (snake g)\<rparr>
    else if is_action_down inp (left (key_bindings g))
    then g\<lparr>snake := set_direction Left (snake g)\<rparr>
    else if is_action_down inp (right (key_bindings g))
    then g\<lparr>snake := set_direction Right (snake g)\<rparr>
    else g) =
   g\<lparr>snake := (snake g)\<lparr>current_direction :=
        steer (first_held inp (key_bindings g)) (current_direction (snake g))\<rparr>\<rparr>"
  by (simp add: first_held_def is_action_down_held set_direction_steer)

lemma update_playing_eq:
  "update_playing inp g =
     (if is_action_pressed inp (pause (key_bindings g)) then Some (g\<lparr>app_state := Pause\<rparr>)
      else if steady_clock_now inp - last_move_time g \<ge> milliseconds (tick_rate_ms g)
      then simulation_tick inp (steady_clock_now inp) (steered inp g)
      else Some (steered inp g))"
  unfolding update_playing_def sampling_eq by (simp add: steered_def Let_def)

lemma has_self_collision_self_hit:
  assumes "segments s \<noteq> []"
  shows "has_self_collision s = Some (self_hit s)"
proof -
  from assms obtain front rest where segs: "segments s = front # rest"
    by (cases "segments s") auto
  have "(\<exists>i. 0 < i \<and> i < length (front # rest) \<and> (front # rest) ! i = (front # rest) ! 0)
          \<longleftrightarrow> front \<in> set rest"
  proof
    assume "\<exists>i. 0 < i \<and> i < length (front # rest) \<and> (front # rest) ! i = (front # rest) ! 0"
    then obtain i where "0 < i" "i < length (front # rest)" "(front # rest) ! i = front"
      by auto
    then have "i - 1 < length rest" "rest ! (i - 1) = front"
      by (auto simp: nth_Cons')
    then show "front \<in> set rest"
      by (metis nth_mem)
  next
    assume "front \<in> set rest"
    then obtain j where "j < length rest" "rest ! j = front"
      by (auto simp: in_set_conv_nth)
    then have "0 < Suc j \<and> Suc j < length (front # rest) \<and>
        (front # rest) ! Suc j = (front # rest) ! 0"
      by simp
    then show "\<exists>i. 0 < i \<and> i < length (front # rest) \<and> (front # rest) ! i = (front # rest) ! 0"
      by blast
  qed
  with has_self_collision_nonempty [OF assms] show ?thesis
    by (simp add: segs self_hit_def)
qed

lemma collide_and_eat_nonempty:
  assumes "segments (snake g) \<noteq> []"
  shows "collide_and_eat inp head g =
     Some (if self_hit (snake g) then game_over g
           else if head = position (food g)
           then g\<lparr>snake := grow (snake g), food := respawn (dist_x inp) (dist_y inp) (food g)\<rparr>
           else g)"
  using has_self_collision_self_hit [OF assms]
  by (cases "self_hit (snake g)") (auto simp: collide_and_eat_def)

lemma get_head_advanced: "get_head (advanced s p) = Some p"
  by (simp add: get_head_def advanced_def)

lemma set_head_advanced: "set_head q (advanced s p) = Some (advanced s q)"
  by (simp add: set_head_def advanced_def)

lemma Point_eq_iff: "(p :: Point) = q \<longleftrightarrow> px p = px q \<and> py p = py q"
  by auto

lemma Game_update_swap:
  "g\<lparr>last_move_time := t, snake := s\<rparr> = (g\<lparr>snake := s, last_move_time := t\<rparr> :: Game)"
  by simp

lemma simulation_tick_wrapping:
  assumes "segments (snake g) \<noteq> []" and "wrapping_enabled g"
  shows "simulation_tick inp now g =
     collide_and_eat inp
       (fst (wrap_head (step_cell (current_direction (snake g)) (hd (segments (snake g))))))
       (g\<lparr>snake := advanced (snake g)
              (fst (wrap_head (step_cell (current_direction (snake g)) (hd (segments (snake g)))))),
          last_move_time := now\<rparr>)"
proof -
  define adv where "adv = step_cell (current_direction (snake g)) (hd (segments (snake g)))"
  have upd: "Snake_update (snake g) = Some (advanced (snake g) adv)"
    using assms(1) by (simp add: Snake_update_nonempty adv_def)
  obtain q w where wh: "wrap_head adv = (q, w)"
    by (cases "wrap_head adv") auto
  have stay: "q = adv" if "\<not> w"
    using that wh by (auto simp: wrap_head_eq in_grid_def Point_eq_iff)
  show ?thesis
    unfolding adv_def [symmetric]
    using assms(2) stay
    by (cases w)
      (simp_all add: simulation_tick_def upd get_head_advanced set_head_advanced wh Let_def
        Game_update_swap)
qed

lemma simulation_tick_walls:
  assumes "segments (snake g) \<noteq> []" and "\<not> wrapping_enabled g"
  shows "simulation_tick inp now g =
     (if in_grid (step_cell (current_direction (snake g)) (hd (segments (snake g))))
      then collide_and_eat inp (step_cell (current_direction (snake g)) (hd (segments (snake g))))
        (g\<lparr>snake := advanced (snake g)
              (step_cell (current_direction (snake g)) (hd (segments (snake g)))),
          last_move_time := now\<rparr>)
      else Some (game_over
        (g\<lparr>snake := advanced (snake g)
              (step_cell (current_direction (snake g)) (hd (segments (snake g)))),
          last_move_time := now\<rparr>)))"
proof -
  define adv where "adv = step_cell (current_direction (snake g)) (hd (segments (snake g)))"
  have upd: "Snake_update (snake g) = Some (advanced (snake g) adv)"
    using assms(1) by (simp add: Snake_update_nonempty adv_def)
  show ?thesis
    unfolding adv_def [symmetric]
    using assms(2)
    by (auto simp add: simulation_tick_def upd get_head_advanced in_grid_def Let_def)
qed

section \<open>The invariant of the reachable states\<close>

lemma hd_Snake_init:
  assumes "1 \<le> n"
  shows "segments (Snake_init n) \<noteq> []"
    and "hd (segments (Snake_init n)) = \<lparr>px = GRID_WIDTH div 2, py = GRID_HEIGHT div 2\<rparr>"
proof -
  from assms have "[0..n - 1] = 0 # [0 + 1..n - 1]"
    by (simp add: upto_rec1)
  then have "segments (Snake_init n) =
      \<lparr>px = GRID_WIDTH div 2, py = GRID_HEIGHT div 2\<rparr> #
      map (\<lambda>k. \<lparr>px = GRID_WIDTH div 2 - k, py = GRID_HEIGHT div 2\<rparr>) [0 + 1..n - 1]"
    by (simp add: segments_Snake_init)
  then show "segments (Snake_init n) \<noteq> []"
    and "hd (segments (Snake_init n)) = \<lparr>px = GRID_WIDTH div 2, py = GRID_HEIGHT div 2\<rparr>"
    by simp_all
qed

lemma game_inv_init: "game_inv (Game_init t0 draw_x draw_y)"
  using hd_Snake_init [of 3]
  by (simp add: game_inv_def in_session_def Game_init_def)

lemma game_inv_start_menu:
  "game_inv g \<Longrightarrow> app_state g = StartMenu \<Longrightarrow> game_inv (update_start_menu inp g)"
  by (simp add: game_inv_def in_session_def update_start_menu_def Let_def)

lemma clamp_bounds: "lo \<le> hi \<Longrightarrow> lo \<le> clamp v lo hi \<and> clamp v lo hi \<le> hi"
  by (simp add: clamp_def)

lemma game_inv_settings:
  "game_inv g \<Longrightarrow> app_state g = Settings \<Longrightarrow> game_inv (update_settings inp g)"
  using clamp_bounds [of 1 10]
  by (auto simp add: game_inv_def in_session_def update_settings_def Let_def)

lemma game_inv_keybinds:
  "game_inv g \<Longrightarrow> app_state g = Keybinds \<Longrightarrow> game_inv (update_keybinds inp g)"
  by (auto simp add: game_inv_def in_session_def update_keybinds_def Let_def)

lemma game_inv_countdown:
  "game_inv g \<Longrightarrow> app_state g = Countdown \<Longrightarrow> game_inv (update_countdown inp g)"
  using hd_Snake_init [of "initial_snake_length g"]
  by (auto simp add: game_inv_def in_session_def update_countdown_def Let_def in_grid_def)

lemma game_inv_pause:
  "game_inv g \<Longrightarrow> app_state g = Pause \<Longrightarrow> game_inv (update_pause inp g)"
  by (auto simp add: game_inv_def in_session_def update_pause_def Let_def)

lemma game_inv_confirm_restart:
  "game_inv g \<Longrightarrow> app_state g = ConfirmRestart \<Longrightarrow> game_inv (update_confirm_restart inp g)"
  using hd_Snake_init [of "initial_snake_length g"]
  by (auto simp add: game_inv_def in_session_def update_confirm_restart_def Let_def in_grid_def)

lemma game_inv_confirm_main_menu:
  "game_inv g \<Longrightarrow> app_state g = ConfirmMainMenu \<Longrightarrow>
   game_inv (update_confirm_main_menu inp g)"
  by (auto simp add: game_inv_def in_session_def update_confirm_main_menu_def Let_def)

lemma game_inv_game_over:
  "game_inv g \<Longrightarrow> app_state g = GameOver \<Longrightarrow> game_inv (update_game_over inp g)"
  by (auto simp add: game_inv_def in_session_def update_game_over_def)

lemma game_inv_collide_and_eat:
  assumes "game_inv g" and "app_state g = Playing"
  shows "\<exists>g'. collide_and_eat inp head g = Some g' \<and> game_inv g'"
proof -
  from assms have ne: "segments (snake g) \<noteq> []"
    by (simp add: game_inv_def)
  show ?thesis
    using assms
    by (auto simp add: collide_and_eat_nonempty [OF ne] game_inv_def in_session_def
        game_over_def grow_def Let_def)
qed

lemma game_inv_playing:
  assumes "game_inv g" and "app_state g = Playing"
  shows "\<exists>g'. update_playing inp g = Some g' \<and> game_inv g'"
proof -
  let ?g = "steered inp g"
  let ?adv = "step_cell (current_direction (snake ?g)) (hd (segments (snake ?g)))"
  have st: "game_inv ?g" "app_state ?g = Playing" "segments (snake ?g) \<noteq> []"
    using assms by (simp_all add: game_inv_def in_session_def steered_def)
  have paused: "game_inv (g\<lparr>app_state := Pause\<rparr>)"
    using assms by (simp add: game_inv_def in_session_def)
  have tick: "\<exists>g'. simulation_tick inp now ?g = Some g' \<and> game_inv g'" for now
  proof (cases "wrapping_enabled ?g")
    case True
    let ?q = "fst (wrap_head ?adv)"
    have "game_inv (?g\<lparr>snake := advanced (snake ?g) ?q, last_move_time := now\<rparr>)"
      using st in_grid_wrap_head [of ?adv]
      by (simp add: game_inv_def in_session_def advanced_def)
    then show ?thesis
      using st True
      by (simp add: simulation_tick_wrapping game_inv_collide_and_eat)
  next
    case False
    show ?thesis
    proof (cases "in_grid ?adv")
      case True
      then have "game_inv (?g\<lparr>snake := advanced (snake ?g) ?adv, last_move_time := now\<rparr>)"
        using st by (simp add: game_inv_def in_session_def advanced_def)
      then show ?thesis
        using st False True
        by (simp add: simulation_tick_walls game_inv_collide_and_eat)
    next
      case out: False
      have "game_inv (game_over (?g\<lparr>snake := advanced (snake ?g) ?adv, last_move_time := now\<rparr>))"
        using st by (simp add: game_inv_def in_session_def advanced_def game_over_def Let_def)
      then show ?thesis
        using st False out
        by (simp add: simulation_tick_walls)
    qed
  qed
  show ?thesis
    using paused st(1) tick [of "steady_clock_now inp"]
    by (simp add: update_playing_eq)
qed

lemma game_inv_update:
  assumes "game_inv g"
  shows "\<exists>g'. update inp g = Some g' \<and> game_inv g'"
  using assms game_inv_start_menu game_inv_settings game_inv_keybinds game_inv_countdown
    game_inv_playing game_inv_pause game_inv_confirm_restart game_inv_confirm_main_menu
    game_inv_game_over
  by (cases "app_state g") (simp_all add: update_def)

lemma reachable_game_inv: "reachable g \<Longrightarrow> game_inv g"
proof (induction rule: reachable.induct)
  case (init t0 draw_x draw_y)
  show ?case
    by (rule game_inv_init)
next
  case (frame g inp g')
  with game_inv_update [of g inp] show ?case
    by auto
qed

section \<open>The cells of the snake stay next to the grid\<close>

lemma in_grid_near: "in_grid p \<Longrightarrow> near_grid p"
  by (simp add: in_grid_def near_grid_def)

lemma near_grid_step: "in_grid p \<Longrightarrow> near_grid (step_cell d p)"
  by (cases d) (simp_all add: in_grid_def near_grid_def)

lemma Snake_init_in_grid:
  assumes "n \<le> 10" and "p \<in> set (segments (Snake_init n))"
  shows "in_grid p"
  using assms by (auto simp: segments_Snake_init in_grid_def)

lemma cells_inv_Snake_init:
  assumes "1 \<le> n" and "n \<le> 10"
  shows "near_grid (hd (segments (Snake_init n)))"
    and "\<forall>p \<in> set (tl (segments (Snake_init n))). in_grid p"
proof -
  from hd_Snake_init(1) [OF assms(1)] have "hd (segments (Snake_init n)) \<in> set (segments (Snake_init n))"
    by simp
  with assms(2) show "near_grid (hd (segments (Snake_init n)))"
    by (blast intro: in_grid_near Snake_init_in_grid)
  show "\<forall>p \<in> set (tl (segments (Snake_init n))). in_grid p"
    using assms(2) hd_Snake_init(1) [OF assms(1)]
    by (metis Snake_init_in_grid list.set_sel(2))
qed

lemma cells_inv_init: "cells_inv (Game_init t0 draw_x draw_y)"
  using cells_inv_Snake_init [of 3] by (simp add: cells_inv_def Game_init_def)

lemma cells_inv_advanced:
  assumes "segments s \<noteq> []" and "in_grid (hd (segments s))"
    and "\<forall>p \<in> set (tl (segments s)). in_grid p" and "near_grid q"
  shows "near_grid (hd (segments (advanced s q)))"
    and "\<forall>p \<in> set (tl (segments (advanced s q))). in_grid p"
proof -
  show "near_grid (hd (segments (advanced s q)))"
    using assms(4) by (simp add: advanced_def)
  have all: "\<forall>p \<in> set (segments s). in_grid p"
    using assms(1-3) by (cases "segments s") auto
  then show "\<forall>p \<in> set (tl (segments (advanced s q))). in_grid p"
    by (auto simp: advanced_def dest: in_set_butlastD)
qed

lemma cells_inv_collide_and_eat:
  assumes "collide_and_eat inp head g = Some g'" and "cells_inv g" and "segments (snake g) \<noteq> []"
  shows "cells_inv g'"
  using assms(1,2) unfolding collide_and_eat_nonempty [OF assms(3)]
  by (auto simp: cells_inv_def game_over_def grow_def Let_def split: if_splits)

lemma cells_inv_tick:
  assumes "simulation_tick inp now g = Some g'"
    and "cells_inv g" and "segments (snake g) \<noteq> []" and "in_grid (hd (segments (snake g)))"
  shows "cells_inv g'"
proof -
  let ?adv = "step_cell (current_direction (snake g)) (hd (segments (snake g)))"
  have tl_ok: "\<forall>p \<in> set (tl (segments (snake g))). in_grid p"
    and len: "initial_snake_length g \<le> 10"
    using assms(2) by (simp_all add: cells_inv_def)
  have G: "cells_inv (g\<lparr>snake := advanced (snake g) q, last_move_time := now\<rparr>)"
    "segments (snake (g\<lparr>snake := advanced (snake g) q, last_move_time := now\<rparr>)) \<noteq> []"
    if "near_grid q" for q
    using cells_inv_advanced [OF assms(3,4) tl_ok that] len
    by (simp_all add: cells_inv_def advanced_def)
  show ?thesis
  proof (cases "wrapping_enabled g")
    case True
    have "near_grid (fst (wrap_head ?adv))"
      by (rule in_grid_near) (rule in_grid_wrap_head)
    from G [OF this] assms(1) show ?thesis
      unfolding simulation_tick_wrapping [OF assms(3) True]
      by (blast intro: cells_inv_collide_and_eat)
  next
    case False
    have near: "near_grid ?adv"
      using assms(4) by (rule near_grid_step)
    show ?thesis
    proof (cases "in_grid ?adv")
      case True
      with G [OF near] assms(1) show ?thesis
        unfolding simulation_tick_walls [OF assms(3) False]
        by (auto intro: cells_inv_collide_and_eat)
    next
      case out: False
      have "cells_inv (game_over (g\<lparr>snake := advanced (snake g) ?adv, last_move_time := now\<rparr>))"
        using G(1) [OF near] by (simp add: cells_inv_def game_over_def Let_def)
      with out assms(1) show ?thesis
        unfolding simulation_tick_walls [OF assms(3) False]
        by simp
    qed
  qed
qed

lemma cells_inv_update:
  assumes "update inp g = Some g'" and "game_inv g" and "cells_inv g"
  shows "cells_inv g'"
proof (cases "app_state g")
  case Playing
  with assms(2) have ne: "segments (snake g) \<noteq> []" and grid: "in_grid (hd (segments (snake g)))"
    by (simp_all add: game_inv_def in_session_def)
  have st: "cells_inv (steered inp g)" "segments (snake (steered inp g)) \<noteq> []"
    "in_grid (hd (segments (snake (steered inp g))))"
    using assms(3) ne grid by (simp_all add: cells_inv_def steered_def)
  have "cells_inv (g\<lparr>app_state := Pause\<rparr>)"
    using assms(3) by (simp add: cells_inv_def)
  with assms(1) Playing st show ?thesis
    by (auto simp: update_def update_playing_eq split: if_splits intro: cells_inv_tick)
next
  case StartMenu
  with assms show ?thesis
    by (auto simp: update_def update_start_menu_def Let_def cells_inv_def split: if_splits)
next
  case Settings
  with assms clamp_bounds [of 1 10] show ?thesis
    by (auto simp: update_def update_settings_def Let_def cells_inv_def split: if_splits)
next
  case Keybinds
  with assms show ?thesis
    by (auto simp: update_def update_keybinds_def Let_def cells_inv_def split: if_splits)
next
  case Countdown
  with assms cells_inv_Snake_init [of "initial_snake_length g"] show ?thesis
    by (auto simp: update_def update_countdown_def Let_def cells_inv_def game_inv_def
        split: if_splits)
next
  case Pause
  with assms show ?thesis
    by (auto simp: update_def update_pause_def Let_def cells_inv_def split: if_splits)
next
  case ConfirmRestart
  with assms cells_inv_Snake_init [of "initial_snake_length g"] show ?thesis
    by (auto simp: update_def update_confirm_restart_def Let_def cells_inv_def game_inv_def
        split: if_splits)
next
  case ConfirmMainMenu
  with assms show ?thesis
    by (auto simp: update_def update_confirm_main_menu_def Let_def cells_inv_def split: if_splits)
next
  case GameOver
  with assms show ?thesis
    by (auto simp: update_def update_game_over_def cells_inv_def split: if_splits)
qed

lemma reachable_cells_inv: "reachable g \<Longrightarrow> cells_inv g"
proof (induction rule: reachable.induct)
  case (init t0 draw_x draw_y)
  show ?case
    by (rule cells_inv_init)
next
  case (frame g inp g')
  from frame.hyps(1) have "game_inv g"
    by (rule reachable_game_inv)
  with frame show ?case
    by (blast intro: cells_inv_update)
qed

lemma reachable_coordinates_bounded:
  assumes "reachable g" and "p \<in> set (segments (snake g))"
  shows "- 1 \<le> px p \<and> px p \<le> GRID_WIDTH \<and> - 1 \<le> py p \<and> py p \<le> GRID_HEIGHT"
proof -
  from assms(1) have ne: "segments (snake g) \<noteq> []" and c: "cells_inv g"
    by (simp_all add: reachable_game_inv [unfolded game_inv_def] reachable_cells_inv)
  from ne assms(2) have "p = hd (segments (snake g)) \<or> p \<in> set (tl (segments (snake g)))"
    by (cases "segments (snake g)") auto
  with c have "near_grid p"
    by (auto simp: cells_inv_def intro: in_grid_near)
  then show ?thesis
    by (simp add: near_grid_def)
qed

lemma reachable_advance_defined:
  assumes "reachable g"
  shows "segments (snake g) \<noteq> []"
    and "\<forall>p \<in> set (segments (snake g)). int_point p"
    and "int_point (step_cell d (hd (segments (snake g))))"
proof -
  show ne: "segments (snake g) \<noteq> []"
    using reachable_game_inv [OF assms] by (simp add: game_inv_def)
  show "\<forall>p \<in> set (segments (snake g)). int_point p"
  proof
    fix p
    assume "p \<in> set (segments (snake g))"
    from reachable_coordinates_bounded [OF assms this] show "int_point p"
      by (simp add: int_point_def)
  qed
  from ne have "hd (segments (snake g)) \<in> set (segments (snake g))"
    by simp
  from reachable_coordinates_bounded [OF assms this]
  show "int_point (step_cell d (hd (segments (snake g))))"
    by (cases d) (simp_all add: int_point_def)
qed

section \<open>Runs of frames\<close>

lemma Snake_init_3:
  "Snake_init 3 = \<lparr>segments = [\<lparr>px = 20, py = 15\<rparr>, \<lparr>px = 19, py = 15\<rparr>, \<lparr>px = 18, py = 15\<rparr>],
     current_direction = Right, grow_snake = False\<rparr>"
  by (simp add: Snake_init_def Snake_init_loop.simps)

lemma reachable_run: "reachable g \<Longrightarrow> run inps g = Some g' \<Longrightarrow> reachable g'"
proof (induction inps arbitrary: g)
  case Nil
  then show ?case by simp
next
  case (Cons inp inps)
  then show ?case
    by (auto split: option.splits intro: reachable.frame)
qed

lemma reachable_fresh_session: "reachable fresh_session"
proof -
  let ?click = "(no_input 0)\<lparr>IsMouseButtonPressed := True,
      CheckCollisionMouseRec := (\<lambda>rect. rect = \<lparr>rx = 300, ry = 205, width = 200, height = 50\<rparr>)\<rparr>"
  have "run [?click, no_input (milliseconds 3000)] (Game_init 0 7 7) = Some fresh_session"
    by (simp add: update_def Game_init_def update_start_menu_def update_countdown_def
        is_mouse_in_rect_def no_input_def fresh_session_def Let_def duration_cast_ms_def
        milliseconds_def respawn_def Food_init_def)
  with reachable.init [of 0 7 7] show ?thesis
    by (rule reachable_run)
qed

section \<open>The result of a tick\<close>

lemma update_Playing: "app_state g = Playing \<Longrightarrow> update inp g = update_playing inp g"
  by (simp add: update_def)

lemma collide_and_eat_result:
  assumes "segments (snake g) \<noteq> []"
  shows "\<exists>g'. collide_and_eat inp head g = Some g' \<and>
           last_move_time g' = last_move_time g \<and>
           segments (snake g') = segments (snake g) \<and>
           current_direction (snake g') = current_direction (snake g)"
  by (simp add: collide_and_eat_nonempty [OF assms] game_over_def grow_def Let_def)

lemma tick_result:
  assumes "segments (snake g) \<noteq> []"
  shows "\<exists>g'. simulation_tick inp now g = Some g' \<and>
           last_move_time g' = now \<and>
           current_direction (snake g') = current_direction (snake g) \<and>
           hd (segments (snake g')) =
             (if wrapping_enabled g
              then fst (wrap_head (step_cell (current_direction (snake g)) (hd (segments (snake g)))))
              else step_cell (current_direction (snake g)) (hd (segments (snake g)))) \<and>
           tl (segments (snake g')) =
             (if grow_snake (snake g) then segments (snake g) else butlast (segments (snake g)))"
proof -
  let ?adv = "step_cell (current_direction (snake g)) (hd (segments (snake g)))"
  let ?G = "\<lambda>p. g\<lparr>snake := advanced (snake g) p, last_move_time := now\<rparr>"
  have ne: "segments (snake (?G p)) \<noteq> []" for p
    by (simp add: advanced_def)
  have fields: "last_move_time (?G p) = now"
    "segments (snake (?G p)) =
       p # (if grow_snake (snake g) then segments (snake g) else butlast (segments (snake g)))"
    "current_direction (snake (?G p)) = current_direction (snake g)" for p
    by (simp_all add: advanced_def)
  show ?thesis
  proof (cases "wrapping_enabled g")
    case True
    from collide_and_eat_result [OF ne, of inp "fst (wrap_head ?adv)" "fst (wrap_head ?adv)"]
    show ?thesis
      unfolding fields simulation_tick_wrapping [OF assms True]
      using True by auto
  next
    case False
    show ?thesis
    proof (cases "in_grid ?adv")
      case True
      from collide_and_eat_result [OF ne, of inp ?adv ?adv]
      show ?thesis
        unfolding fields simulation_tick_walls [OF assms False]
        using False True by auto
    next
      case out: False
      show ?thesis
        unfolding simulation_tick_walls [OF assms False]
        using False out by (simp add: game_over_def Let_def advanced_def)
    qed
  qed
qed

lemma wrap_coordinate:
  fixes v :: int
  shows "- 1 \<le> v \<Longrightarrow> v \<le> GRID_WIDTH \<Longrightarrow>
         (if v < 0 then GRID_WIDTH - 1 else if v \<ge> GRID_WIDTH then 0 else v) = v mod GRID_WIDTH"
    and "- 1 \<le> v \<Longrightarrow> v \<le> GRID_HEIGHT \<Longrightarrow>
         (if v < 0 then GRID_HEIGHT - 1 else if v \<ge> GRID_HEIGHT then 0 else v) = v mod GRID_HEIGHT"
  unfolding GRID_WIDTH_def GRID_HEIGHT_def by presburger+

lemma step_cell_near:
  assumes "in_grid p"
  shows "- 1 \<le> px (step_cell d p)" "px (step_cell d p) \<le> GRID_WIDTH"
    "- 1 \<le> py (step_cell d p)" "py (step_cell d p) \<le> GRID_HEIGHT"
    "\<not> ((px (step_cell d p) < 0 \<or> GRID_WIDTH \<le> px (step_cell d p)) \<and>
        (py (step_cell d p) < 0 \<or> GRID_HEIGHT \<le> py (step_cell d p)))"
  using assms by (cases d; simp add: in_grid_def)+

lemma wrap_head_mod:
  assumes "in_grid p"
  shows "fst (wrap_head (step_cell d p)) =
           \<lparr>px = px (step_cell d p) mod GRID_WIDTH, py = py (step_cell d p) mod GRID_HEIGHT\<rparr>"
proof -
  have eqx: "(if px (step_cell d p) < 0 then GRID_WIDTH - 1
         else if px (step_cell d p) \<ge> GRID_WIDTH then 0
         else px (step_cell d p)) = px (step_cell d p) mod GRID_WIDTH"
    using step_cell_near(1,2) [OF assms, of d] by (rule wrap_coordinate(1))
  have eqy: "(if py (step_cell d p) < 0 then GRID_HEIGHT - 1
         else if py (step_cell d p) \<ge> GRID_HEIGHT then 0
         else py (step_cell d p)) = py (step_cell d p) mod GRID_HEIGHT"
    using step_cell_near(3,4) [OF assms, of d] by (rule wrap_coordinate(2))
  show ?thesis
    by (simp only: wrap_head_eq eqx eqy fst_conv)
qed

section \<open>The best length\<close>

lemma tick_best_length:
  assumes "simulation_tick inp now g = Some g'"
  shows "(app_state g' = GameOver \<and>
            best_length g' = max (best_length g) (get_length (snake g'))) \<or>
         (app_state g' = app_state g \<and> best_length g' = best_length g)"
proof -
  have ne: "segments (snake g) \<noteq> []"
    using assms by (auto simp: simulation_tick_def Snake_update_def split: list.splits)
  have ne': "segments (snake (g\<lparr>snake := advanced (snake g) p, last_move_time := now\<rparr>)) \<noteq> []"
    for p
    by (simp add: advanced_def)
  show ?thesis
  proof (cases "wrapping_enabled g")
    case True
    with assms show ?thesis
      unfolding simulation_tick_wrapping [OF ne True] collide_and_eat_nonempty [OF ne']
      by (auto simp: game_over_def Let_def grow_def split: if_splits)
  next
    case False
    with assms show ?thesis
      unfolding simulation_tick_walls [OF ne False] collide_and_eat_nonempty [OF ne']
      by (auto simp: game_over_def Let_def grow_def split: if_splits)
  qed
qed

lemma update_playing_best_length:
  assumes "update_playing inp g = Some g'" and "app_state g = Playing"
  shows "(app_state g' = GameOver \<and>
            best_length g' = max (best_length g) (get_length (snake g'))) \<or>
         (app_state g' \<noteq> GameOver \<and> best_length g' = best_length g)"
proof (cases "is_action_pressed inp (pause (key_bindings g))")
  case True
  with assms show ?thesis
    by (auto simp: update_playing_eq)
next
  case False
  show ?thesis
  proof (cases "steady_clock_now inp - last_move_time g \<ge> milliseconds (tick_rate_ms g)")
    case True
    with assms False have "simulation_tick inp (steady_clock_now inp) (steered inp g) = Some g'"
      by (simp add: update_playing_eq)
    from tick_best_length [OF this] assms(2) show ?thesis
      by (auto simp: steered_def)
  next
    case nd: False
    with assms False show ?thesis
      by (auto simp: update_playing_eq steered_def)
  qed
qed

lemma update_best_length:
  assumes "update inp g = Some g'"
    and "previous_state g \<noteq> GameOver"
  shows "best_length g' =
           (if app_state g \<noteq> GameOver \<and> app_state g' = GameOver
            then max (best_length g) (get_length (snake g'))
            else best_length g)"
proof (cases "app_state g")
  case Playing
  with assms update_playing_best_length [of inp g g'] show ?thesis
    by (auto simp: update_def)
next
  case StartMenu
  with assms show ?thesis
    by (auto simp: update_def update_start_menu_def Let_def split: if_splits)
next
  case Settings
  with assms show ?thesis
    by (auto simp: update_def update_settings_def Let_def split: if_splits)
next
  case Keybinds
  with assms show ?thesis
    by (auto simp: update_def update_keybinds_def Let_def split: if_splits)
next
  case Countdown
  with assms show ?thesis
    by (auto simp: update_def update_countdown_def Let_def split: if_splits)
next
  case Pause
  with assms show ?thesis
    by (auto simp: update_def update_pause_def Let_def split: if_splits)
next
  case ConfirmRestart
  with assms show ?thesis
    by (auto simp: update_def update_confirm_restart_def Let_def split: if_splits)
next
  case ConfirmMainMenu
  with assms show ?thesis
    by (auto simp: update_def update_confirm_main_menu_def Let_def split: if_splits)
next
  case GameOver
  with assms show ?thesis
    by (auto simp: update_def update_game_over_def split: if_splits)
qed

lemma update_best_length_mono:
  assumes "update inp g = Some g'"
  shows "best_length g \<le> best_length g'"
proof (cases "app_state g")
  case Playing
  with assms update_playing_best_length [of inp g g'] show ?thesis
    by (auto simp: update_def)
next
  case StartMenu
  with assms show ?thesis
    by (auto simp: update_def update_start_menu_def Let_def split: if_splits)
next
  case Settings
  with assms show ?thesis
    by (auto simp: update_def update_settings_def Let_def split: if_splits)
next
  case Keybinds
  with assms show ?thesis
    by (auto simp: update_def update_keybinds_def Let_def split: if_splits)
next
  case Countdown
  with assms show ?thesis
    by (auto simp: update_def update_countdown_def Let_def split: if_splits)
next
  case Pause
  with assms show ?thesis
    by (auto simp: update_def update_pause_def Let_def split: if_splits)
next
  case ConfirmRestart
  with assms show ?thesis
    by (auto simp: update_def update_confirm_restart_def Let_def split: if_splits)
next
  case ConfirmMainMenu
  with assms show ?thesis
    by (auto simp: update_def update_confirm_main_menu_def Let_def split: if_splits)
next
  case GameOver
  with assms show ?thesis
    by (auto simp: update_def update_game_over_def split: if_splits)
qed

lemma run_best_length_mono: "run inps g = Some g' \<Longrightarrow> best_length g \<le> best_length g'"
proof (induction inps arbitrary: g)
  case Nil
  then show ?case by simp
next
  case (Cons inp inps)
  then obtain g1 where step: "update inp g = Some g1" and rest: "run inps g1 = Some g'"
    by (auto split: option.splits)
  from update_best_length_mono [OF step] Cons.IH [OF rest] show ?case
    by simp
qed

section \<open>Evaluation of the concrete games\<close>

lemma fresh_session_eq:
  "fresh_session =
     \<lparr>app_state = Playing, previous_state = StartMenu, initial_snake_length = 3,
      tick_rate_ms = 100, wrapping_enabled = True, best_length = 0,
      countdown_duration_ms = 3000, countdown_start_time = 0,
      snake = \<lparr>segments = [\<lparr>px = 20, py = 15\<rparr>, \<lparr>px = 19, py = 15\<rparr>, \<lparr>px = 18, py = 15\<rparr>],
                current_direction = Right, grow_snake = False\<rparr>,
      food = \<lparr>position = \<lparr>px = 7, py = 7\<rparr>\<rparr>,
      last_move_time = 3000000000,
      key_bindings = \<lparr>pause = [256], resume = [256], up = [265, 87], down = [264, 83],
                       left = [263, 65], right = [262, 68]\<rparr>,
      current_edit_action = - 1\<rparr>"
  by (simp add: fresh_session_def Game_init_def Snake_init_3 Food_init_def KeyBindings_init_def
      milliseconds_def)

lemmas frame_eval =
  no_input_def milliseconds_def update_def update_playing_def
  set_direction_def simulation_tick_def Snake_update_def get_head_def set_head_def wrap_head_def
  collide_and_eat_def has_self_collision_def self_collision_loop.simps game_over_def
  get_length_def grow_def respawn_def Let_def

lemma run_east_edge:
  "run (map (\<lambda>k. no_input (milliseconds (3000 + 100 * k)))
         [1, 2, 3, 4, 5, 6, 7, 8, 9, 10, 11, 12, 13, 14, 15, 16, 17, 18, 19])
     fresh_session = Some east_edge"
  by (simp add: east_edge_def fresh_session_eq frame_eval)

lemma reachable_east_edge: "reachable east_edge"
  using reachable_fresh_session run_east_edge by (rule reachable_run)


lemma run_append:
  "run (inps @ inps') g = (case run inps g of None \<Rightarrow> None | Some g' \<Rightarrow> run inps' g')"
  by (induction inps arbitrary: g) (auto split: option.splits)

lemmas menu_eval =
  update_start_menu_def update_countdown_def update_game_over_def is_mouse_in_rect_def
  duration_cast_ms_def Game_init_def Food_init_def KeyBindings_init_def Snake_init_3 click_play_def

lemma run_first_session: "run first_session_frames (Game_init 0 7 7) = Some first_game_over"
  by (simp add: first_session_frames_def first_game_over_def fresh_session_eq frame_eval menu_eval)

lemma run_second_session: "run second_session_frames first_game_over = Some second_session"
  by (simp add: second_session_frames_def second_session_def first_game_over_def
      fresh_session_eq frame_eval menu_eval)

lemma reachable_second_session: "reachable second_session"
proof -
  have "run (first_session_frames @ second_session_frames) (Game_init 0 7 7) = Some second_session"
    by (simp add: run_append run_first_session run_second_session)
  with reachable.init [of 0 7 7] show ?thesis
    by (rule reachable_run)
qed

section \<open>The claims about the Game\<close>

text \<open>
  Claim C1 as it is written fails on a frame in which the pause action is newly pressed:
  200 ms after the last tick, with a tick interval of 100 ms, \<open>update\<close> only sets the
  state to Pause; the snake and the last-tick timestamp are as before, so no tick ran
  although the interval had elapsed.
\<close>

theorem tick_timing_pause_counterexample:
  "reachable fresh_session \<and>
   app_state fresh_session = Playing \<and>
   steady_clock_now ((no_input (milliseconds 3200))\<lparr>IsKeyPressed := (\<lambda>key. key = KEY_ESCAPE)\<rparr>)
     - last_move_time fresh_session \<ge> milliseconds (tick_rate_ms fresh_session) \<and>
   update ((no_input (milliseconds 3200))\<lparr>IsKeyPressed := (\<lambda>key. key = KEY_ESCAPE)\<rparr>)
     fresh_session = Some (fresh_session\<lparr>app_state := Pause\<rparr>) \<and>
   last_move_time (fresh_session\<lparr>app_state := Pause\<rparr>) = last_move_time fresh_session \<and>
   snake (fresh_session\<lparr>app_state := Pause\<rparr>) = snake fresh_session"
  using reachable_fresh_session
  by (simp add: fresh_session_eq no_input_def milliseconds_def update_def update_playing_def)

text \<open>
  Claim C1, amended. In the Playing state,
  \<^item> on a frame in which the pause action is newly pressed no tick runs, whatever the
    elapsed time: \<open>update\<close> returns the same Game with the state set to Pause;
  \<^item> on a frame in which it is not (and the snake has a segment, as in every reachable
    state), \<open>update\<close> returns, and when \<open>now - last_move_time\<close> is at least \<open>tick_rate_ms\<close>
    milliseconds exactly one tick has run whatever the elapsed time: \<open>last_move_time\<close> is
    \<open>now\<close>, the new head is the old head moved by one cell along the heading (corrected
    by the wrap-around when that is enabled), and behind it are the old segments, without
    the tail unless growth was pending;
  \<^item> otherwise no tick has run: the timestamp, the segments, the growth flag, the food,
    the best length and the state are unchanged.
\<close>

theorem tick_timing:
  assumes "app_state g = Playing"
  shows "(is_action_pressed inp (pause (key_bindings g)) \<longrightarrow>
            update inp g = Some (g\<lparr>app_state := Pause\<rparr>)) \<and>
         (\<not> is_action_pressed inp (pause (key_bindings g)) \<and> segments (snake g) \<noteq> [] \<longrightarrow>
            (\<exists>g'. update inp g = Some g' \<and>
     (if steady_clock_now inp - last_move_time g \<ge> milliseconds (tick_rate_ms g)
      then last_move_time g' = steady_clock_now inp \<and>
           hd (segments (snake g')) =
             (let adv = step_cell
                    (steer (first_held inp (key_bindings g)) (current_direction (snake g)))
                    (hd (segments (snake g)))
              in if wrapping_enabled g then fst (wrap_head adv) else adv) \<and>
           tl (segments (snake g')) =
             (if grow_snake (snake g) then segments (snake g) else butlast (segments (snake g)))
      else last_move_time g' = last_move_time g \<and>
           segments (snake g') = segments (snake g) \<and>
           grow_snake (snake g') = grow_snake (snake g) \<and>
           food g' = food g \<and>
           best_length g' = best_length g \<and>
           app_state g' = Playing)))"
proof (intro conjI impI)
  assume "is_action_pressed inp (pause (key_bindings g))"
  with assms show "update inp g = Some (g\<lparr>app_state := Pause\<rparr>)"
    by (simp add: update_def update_playing_def)
next
  assume run: "\<not> is_action_pressed inp (pause (key_bindings g)) \<and> segments (snake g) \<noteq> []"
  let ?due = "steady_clock_now inp - last_move_time g \<ge> milliseconds (tick_rate_ms g)"
  let ?P = "\<lambda>g'. update inp g = Some g' \<and>
     (if ?due
      then last_move_time g' = steady_clock_now inp \<and>
           hd (segments (snake g')) =
             (let adv = step_cell
                    (steer (first_held inp (key_bindings g)) (current_direction (snake g)))
                    (hd (segments (snake g)))
              in if wrapping_enabled g then fst (wrap_head adv) else adv) \<and>
           tl (segments (snake g')) =
             (if grow_snake (snake g) then segments (snake g) else butlast (segments (snake g)))
      else last_move_time g' = last_move_time g \<and>
           segments (snake g') = segments (snake g) \<and>
           grow_snake (snake g') = grow_snake (snake g) \<and>
           food g' = food g \<and>
           best_length g' = best_length g \<and>
           app_state g' = Playing)"
  show "\<exists>g'. ?P g'"
  proof (cases ?due)
    case True
    have ne: "segments (snake (steered inp g)) \<noteq> []"
      using run by (simp add: steered_def)
    from tick_result [OF ne, of inp "steady_clock_now inp"]
    obtain g' where "simulation_tick inp (steady_clock_now inp) (steered inp g) = Some g'"
      and "last_move_time g' = steady_clock_now inp"
      and "hd (segments (snake g')) =
             (if wrapping_enabled (steered inp g)
              then fst (wrap_head (step_cell (current_direction (snake (steered inp g)))
                     (hd (segments (snake (steered inp g))))))
              else step_cell (current_direction (snake (steered inp g)))
                     (hd (segments (snake (steered inp g)))))"
      and "tl (segments (snake g')) =
             (if grow_snake (snake (steered inp g)) then segments (snake (steered inp g))
              else butlast (segments (snake (steered inp g))))"
      by blast
    then have "?P g'"
      using assms run True
      by (simp add: update_Playing update_playing_eq steered_def Let_def)
    then show ?thesis ..
  next
    case False
    then have "?P (steered inp g)"
      using assms run
      by (simp add: update_Playing update_playing_eq steered_def)
    then show ?thesis ..
  qed
qed

theorem tick_timing_witness:
  "app_state fresh_session = Playing \<and>
   is_action_pressed ((no_input (milliseconds 4000))\<lparr>IsKeyPressed := (\<lambda>key. key = KEY_ESCAPE)\<rparr>)
     (pause (key_bindings fresh_session)) \<and>
   update ((no_input (milliseconds 4000))\<lparr>IsKeyPressed := (\<lambda>key. key = KEY_ESCAPE)\<rparr>)
     fresh_session = Some (fresh_session\<lparr>app_state := Pause\<rparr>) \<and>
   \<not> is_action_pressed (no_input (milliseconds 4000)) (pause (key_bindings fresh_session)) \<and>
   segments (snake fresh_session) \<noteq> [] \<and>
   steady_clock_now (no_input (milliseconds 4000)) - last_move_time fresh_session
     = 10 * milliseconds (tick_rate_ms fresh_session) \<and>
   (\<exists>g'. update (no_input (milliseconds 4000)) fresh_session = Some g' \<and>
      last_move_time g' = milliseconds 4000 \<and>
      segments (snake g') = [\<lparr>px = 21, py = 15\<rparr>, \<lparr>px = 20, py = 15\<rparr>, \<lparr>px = 19, py = 15\<rparr>])"
proof -
  let ?inp = "no_input (milliseconds 4000)"
  let ?esc = "(no_input (milliseconds 4000))\<lparr>IsKeyPressed := (\<lambda>key. key = KEY_ESCAPE)\<rparr>"
  have h1: "app_state fresh_session = Playing"
    and h2: "segments (snake fresh_session) \<noteq> []"
    and h3: "\<not> is_action_pressed ?inp (pause (key_bindings fresh_session))"
    and h4: "steady_clock_now ?inp - last_move_time fresh_session
       = 10 * milliseconds (tick_rate_ms fresh_session)"
    and h5: "is_action_pressed ?esc (pause (key_bindings fresh_session))"
    by (simp_all add: fresh_session_eq no_input_def milliseconds_def)
  from tick_timing [OF h1, of ?esc] h5
  have paused: "update ?esc fresh_session = Some (fresh_session\<lparr>app_state := Pause\<rparr>)"
    by blast
  from tick_timing [OF h1, of ?inp] h2 h3
  obtain g' where upd: "update ?inp fresh_session = Some g'"
    and lm: "last_move_time g' = milliseconds 4000"
    and hd': "hd (segments (snake g')) = \<lparr>px = 21, py = 15\<rparr>"
    and tl': "tl (segments (snake g')) = [\<lparr>px = 20, py = 15\<rparr>, \<lparr>px = 19, py = 15\<rparr>]"
    by (auto simp: fresh_session_eq no_input_def milliseconds_def first_held_def held_def
        wrap_head_eq in_grid_def Let_def)
  have "segments (snake g') \<noteq> []"
    using tl' by auto
  with hd' tl' have "segments (snake g') = [\<lparr>px = 21, py = 15\<rparr>, \<lparr>px = 20, py = 15\<rparr>, \<lparr>px = 19, py = 15\<rparr>]"
    by (cases "segments (snake g')") auto
  with h1 h2 h3 h4 h5 paused upd lm show ?thesis
    by blast
qed

text \<open>
  Claim C2: the movement input is sampled as step 1 of the tick, so that at most one of
  the four actions takes effect per tick, under the reversal guard of \<open>set_direction\<close>.
  The code does not do that. \<open>set_direction\<close> refuses Left while the snake heads Right,
  but lines 356--359 of \<open>update_playing\<close> run on every frame, outside the \<open>if\<close> on the tick
  interval. From a fresh session heading Right, a frame 10 ms after the last tick with Up
  held runs no tick and yet turns the heading to Up; the next frame, with Left held, turns
  it to Left and runs the tick. Two actions took effect for one tick, and the snake
  reversed onto its own second segment: the session is over. The theorem is the code at
  that input.
\<close>

theorem movement_sampling_double_turn:
  "reachable fresh_session \<and>
   current_direction (snake fresh_session) = Right \<and>
   set_direction Left (snake fresh_session) = snake fresh_session \<and>
   steady_clock_now ((no_input (milliseconds 3010))\<lparr>IsKeyDown := (\<lambda>key. key = KEY_UP)\<rparr>)
     - last_move_time fresh_session < milliseconds (tick_rate_ms fresh_session) \<and>
   update ((no_input (milliseconds 3010))\<lparr>IsKeyDown := (\<lambda>key. key = KEY_UP)\<rparr>) fresh_session
     = Some (fresh_session\<lparr>snake := (snake fresh_session)\<lparr>current_direction := Up\<rparr>\<rparr>) \<and>
   update ((no_input (milliseconds 3100))\<lparr>IsKeyDown := (\<lambda>key. key = KEY_LEFT)\<rparr>)
     (fresh_session\<lparr>snake := (snake fresh_session)\<lparr>current_direction := Up\<rparr>\<rparr>)
     = Some (fresh_session
         \<lparr>snake := \<lparr>segments = [\<lparr>px = 19, py = 15\<rparr>, \<lparr>px = 20, py = 15\<rparr>, \<lparr>px = 19, py = 15\<rparr>],
                     current_direction = Left, grow_snake = False\<rparr>,
          last_move_time := milliseconds 3100,
          best_length := 3,
          app_state := GameOver\<rparr>)"
  using reachable_fresh_session
  by (simp add: fresh_session_eq no_input_def milliseconds_def update_def update_playing_def
      set_direction_def simulation_tick_def Snake_update_def get_head_def wrap_head_def
      collide_and_eat_def has_self_collision_def self_collision_loop.simps game_over_def
      get_length_def Let_def)

text \<open>
  Claim C3. In every reachable Playing state with wrap-around enabled, a frame that runs
  the tick leaves a head whose coordinates are those of the head after \<open>Snake::update\<close>
  modulo the extent of the grid (column \<open>GRID_WIDTH\<close> becomes 0, column \<open>-1\<close> becomes
  \<open>GRID_WIDTH - 1\<close>, and the same for rows); only the head cell is replaced, the
  segments behind it are those \<open>Snake::update\<close> left; and the head after \<open>Snake::update\<close>
  is out of range on at most one axis.
\<close>

theorem wrap_around:
  assumes "reachable g"
    and "app_state g = Playing"
    and "wrapping_enabled g"
    and "\<not> is_action_pressed inp (pause (key_bindings g))"
    and "steady_clock_now inp - last_move_time g \<ge> milliseconds (tick_rate_ms g)"
  shows "\<exists>g' adv.
           adv = step_cell (steer (first_held inp (key_bindings g)) (current_direction (snake g)))
                   (hd (segments (snake g))) \<and>
           update inp g = Some g' \<and>
           hd (segments (snake g')) = \<lparr>px = px adv mod GRID_WIDTH, py = py adv mod GRID_HEIGHT\<rparr> \<and>
           tl (segments (snake g')) =
             (if grow_snake (snake g) then segments (snake g) else butlast (segments (snake g))) \<and>
           \<not> ((px adv < 0 \<or> GRID_WIDTH \<le> px adv) \<and> (py adv < 0 \<or> GRID_HEIGHT \<le> py adv)) \<and>
           (px adv = GRID_WIDTH \<longrightarrow> px (hd (segments (snake g'))) = 0) \<and>
           (px adv = - 1 \<longrightarrow> px (hd (segments (snake g'))) = GRID_WIDTH - 1) \<and>
           (py adv = GRID_HEIGHT \<longrightarrow> py (hd (segments (snake g'))) = 0) \<and>
           (py adv = - 1 \<longrightarrow> py (hd (segments (snake g'))) = GRID_HEIGHT - 1)"
proof -
  let ?d = "steer (first_held inp (key_bindings g)) (current_direction (snake g))"
  let ?adv = "step_cell ?d (hd (segments (snake g)))"
  from assms(1) have inv: "game_inv g"
    by (rule reachable_game_inv)
  with assms(2) have ne: "segments (snake g) \<noteq> []" and grid: "in_grid (hd (segments (snake g)))"
    by (simp_all add: game_inv_def in_session_def)
  have ne': "segments (snake (steered inp g)) \<noteq> []"
    using ne by (simp add: steered_def)
  from tick_result [OF ne', of inp "steady_clock_now inp"]
  obtain g' where tick: "simulation_tick inp (steady_clock_now inp) (steered inp g) = Some g'"
    and hd': "hd (segments (snake g')) = fst (wrap_head ?adv)"
    and tl': "tl (segments (snake g')) =
        (if grow_snake (snake g) then segments (snake g) else butlast (segments (snake g)))"
    using assms(3) by (auto simp: steered_def)
  have upd: "update inp g = Some g'"
    using assms tick by (simp add: update_Playing update_playing_eq)
  have hd_mod: "hd (segments (snake g')) =
      \<lparr>px = px ?adv mod GRID_WIDTH, py = py ?adv mod GRID_HEIGHT\<rparr>"
    using hd' wrap_head_mod [OF grid, of ?d] by simp
  have one_axis: "\<not> ((px ?adv < 0 \<or> GRID_WIDTH \<le> px ?adv) \<and>
      (py ?adv < 0 \<or> GRID_HEIGHT \<le> py ?adv))"
    by (rule step_cell_near(5) [OF grid])
  have edges: "(px ?adv = GRID_WIDTH \<longrightarrow> px (hd (segments (snake g'))) = 0) \<and>
      (px ?adv = - 1 \<longrightarrow> px (hd (segments (snake g'))) = GRID_WIDTH - 1) \<and>
      (py ?adv = GRID_HEIGHT \<longrightarrow> py (hd (segments (snake g'))) = 0) \<and>
      (py ?adv = - 1 \<longrightarrow> py (hd (segments (snake g'))) = GRID_HEIGHT - 1)"
    unfolding hd_mod by simp
  from upd hd_mod tl' one_axis edges show ?thesis
    by blast
qed

theorem wrap_around_witness:
  "reachable east_edge \<and>
   app_state east_edge = Playing \<and>
   wrapping_enabled east_edge \<and>
   \<not> is_action_pressed (no_input (milliseconds 5000)) (pause (key_bindings east_edge)) \<and>
   steady_clock_now (no_input (milliseconds 5000)) - last_move_time east_edge
     \<ge> milliseconds (tick_rate_ms east_edge) \<and>
   (\<exists>g'. update (no_input (milliseconds 5000)) east_edge = Some g' \<and>
      hd (segments (snake g')) = \<lparr>px = 0, py = 15\<rparr> \<and>
      tl (segments (snake g')) = [\<lparr>px = 39, py = 15\<rparr>, \<lparr>px = 38, py = 15\<rparr>])"
proof -
  let ?inp = "no_input (milliseconds 5000)"
  have h2: "app_state east_edge = Playing"
    and h3: "wrapping_enabled east_edge"
    and h4: "\<not> is_action_pressed ?inp (pause (key_bindings east_edge))"
    and h5: "steady_clock_now ?inp - last_move_time east_edge
       \<ge> milliseconds (tick_rate_ms east_edge)"
    by (simp_all add: east_edge_def fresh_session_eq no_input_def milliseconds_def)
  have fh: "first_held ?inp (key_bindings east_edge) = None"
    by (simp add: first_held_def held_def east_edge_def fresh_session_eq no_input_def)
  from wrap_around [OF reachable_east_edge h2 h3 h4 h5]
  have "\<exists>g'. update ?inp east_edge = Some g' \<and>
      hd (segments (snake g')) = \<lparr>px = 0, py = 15\<rparr> \<and>
      tl (segments (snake g')) = [\<lparr>px = 39, py = 15\<rparr>, \<lparr>px = 38, py = 15\<rparr>]"
    unfolding fh by (auto simp: east_edge_def fresh_session_eq)
  with reachable_east_edge h2 h3 h4 h5 show ?thesis
    by blast
qed

text \<open>
  Claim C5. With wrap-around disabled, for every snake with a segment whose head after
  \<open>Snake::update\<close> (along the heading in force on that frame) is outside the grid, the
  frame that runs the tick ends in the state GameOver; the snake of the result is exactly
  the snake \<open>Snake::update\<close> returned (no set_head, no growth), the food is untouched, and
  only the timestamp, the best length and the state change besides.
\<close>

theorem boundary_collision_game_over:
  assumes "app_state g = Playing"
    and "segments (snake g) \<noteq> []"
    and "\<not> wrapping_enabled g"
    and "\<not> is_action_pressed inp (pause (key_bindings g))"
    and "steady_clock_now inp - last_move_time g \<ge> milliseconds (tick_rate_ms g)"
    and "\<not> in_grid (step_cell
            (steer (first_held inp (key_bindings g)) (current_direction (snake g)))
            (hd (segments (snake g))))"
  shows "\<exists>s'. Snake_update ((snake g)\<lparr>current_direction :=
                  steer (first_held inp (key_bindings g)) (current_direction (snake g))\<rparr>) = Some s' \<and>
           hd (segments s') = step_cell
             (steer (first_held inp (key_bindings g)) (current_direction (snake g)))
             (hd (segments (snake g))) \<and>
           update inp g =
             Some (g\<lparr>snake := s',
                    last_move_time := steady_clock_now inp,
                    best_length := max (best_length g) (get_length s'),
                    app_state := GameOver\<rparr>)"
proof -
  have ne: "segments (snake (steered inp g)) \<noteq> []"
    using assms(2) by (simp add: steered_def)
  have nw: "\<not> wrapping_enabled (steered inp g)"
    using assms(3) by (simp add: steered_def)
  show ?thesis
    using assms simulation_tick_walls [OF ne nw, of inp "steady_clock_now inp"]
    by (simp add: update_Playing update_playing_eq Snake_update_nonempty
        steered_def game_over_def Let_def advanced_def)
qed

theorem boundary_collision_game_over_witness:
  "app_state (east_edge\<lparr>wrapping_enabled := False\<rparr>) = Playing \<and>
   segments (snake (east_edge\<lparr>wrapping_enabled := False\<rparr>)) \<noteq> [] \<and>
   \<not> wrapping_enabled (east_edge\<lparr>wrapping_enabled := False\<rparr>) \<and>
   \<not> is_action_pressed (no_input (milliseconds 5000))
       (pause (key_bindings (east_edge\<lparr>wrapping_enabled := False\<rparr>))) \<and>
   steady_clock_now (no_input (milliseconds 5000))
     - last_move_time (east_edge\<lparr>wrapping_enabled := False\<rparr>)
     \<ge> milliseconds (tick_rate_ms (east_edge\<lparr>wrapping_enabled := False\<rparr>)) \<and>
   \<not> in_grid \<lparr>px = 40, py = 15\<rparr> \<and>
   update (no_input (milliseconds 5000)) (east_edge\<lparr>wrapping_enabled := False\<rparr>) =
     Some (east_edge
       \<lparr>wrapping_enabled := False,
        snake := \<lparr>segments = [\<lparr>px = 40, py = 15\<rparr>, \<lparr>px = 39, py = 15\<rparr>, \<lparr>px = 38, py = 15\<rparr>],
                   current_direction = Right, grow_snake = False\<rparr>,
        last_move_time := milliseconds 5000,
        best_length := 3,
        app_state := GameOver\<rparr>)"
proof -
  let ?g = "east_edge\<lparr>wrapping_enabled := False\<rparr>"
  let ?inp = "no_input (milliseconds 5000)"
  have fh: "first_held ?inp (key_bindings ?g) = None"
    by (simp add: first_held_def held_def east_edge_def fresh_session_eq no_input_def)
  have h1: "app_state ?g = Playing"
    and h2: "segments (snake ?g) \<noteq> []"
    and h3: "\<not> wrapping_enabled ?g"
    and h4: "\<not> is_action_pressed ?inp (pause (key_bindings ?g))"
    and h5: "steady_clock_now ?inp - last_move_time ?g \<ge> milliseconds (tick_rate_ms ?g)"
    and h6: "\<not> in_grid (step_cell (steer (first_held ?inp (key_bindings ?g))
                (current_direction (snake ?g))) (hd (segments (snake ?g))))"
    and out: "\<not> in_grid \<lparr>px = 40, py = 15\<rparr>"
    unfolding fh
    by (simp_all add: east_edge_def fresh_session_eq no_input_def milliseconds_def in_grid_def)
  from boundary_collision_game_over [OF h1 h2 h3 h4 h5 h6]
  have "update ?inp ?g =
     Some (east_edge
       \<lparr>wrapping_enabled := False,
        snake := \<lparr>segments = [\<lparr>px = 40, py = 15\<rparr>, \<lparr>px = 39, py = 15\<rparr>, \<lparr>px = 38, py = 15\<rparr>],
                   current_direction = Right, grow_snake = False\<rparr>,
        last_move_time := milliseconds 5000,
        best_length := 3,
        app_state := GameOver\<rparr>)"
    unfolding fh
    by (auto simp: east_edge_def fresh_session_eq Snake_update_def get_length_def no_input_def
        milliseconds_def Let_def)
  with h1 h2 h3 h4 h5 out show ?thesis
    by blast
qed

text \<open>
  Claim C7. The best length is 0 in the constructed Game; on every frame from a reachable
  state it becomes \<open>max best_length (final snake length)\<close> when the frame enters GameOver
  and is unchanged otherwise; and over any sequence of frames it never decreases.
\<close>

theorem best_length_high_water_mark:
  "best_length (Game_init t0 draw_x draw_y) = 0 \<and>
   (reachable g \<and> update inp g = Some g1 \<longrightarrow>
      best_length g1 =
        (if app_state g \<noteq> GameOver \<and> app_state g1 = GameOver
         then max (best_length g) (get_length (snake g1))
         else best_length g)) \<and>
   (run inps g0 = Some g2 \<longrightarrow> best_length g0 \<le> best_length g2)"
proof -
  have "previous_state g \<noteq> GameOver" if "reachable g"
    using reachable_game_inv [OF that] by (auto simp: game_inv_def)
  then show ?thesis
    using update_best_length [of inp g g1] run_best_length_mono [of inps g0 g2]
    by (auto simp: Game_init_def)
qed

theorem best_length_high_water_mark_witness:
  "best_length (Game_init 0 7 7) = 0 \<and>
   run first_session_frames (Game_init 0 7 7) = Some first_game_over \<and>
   best_length first_game_over = 4 \<and>
   run second_session_frames first_game_over = Some second_session \<and>
   reachable second_session \<and>
   app_state second_session = Playing \<and>
   update ((no_input (milliseconds 9100))\<lparr>IsKeyDown := (\<lambda>key. key = KEY_LEFT)\<rparr>) second_session
     = Some (second_session
         \<lparr>snake := \<lparr>segments = [\<lparr>px = 19, py = 15\<rparr>, \<lparr>px = 20, py = 15\<rparr>, \<lparr>px = 19, py = 15\<rparr>],
                     current_direction = Left, grow_snake = False\<rparr>,
          last_move_time := milliseconds 9100,
          app_state := GameOver\<rparr>) \<and>
   get_length \<lparr>segments = [\<lparr>px = 19, py = 15\<rparr>, \<lparr>px = 20, py = 15\<rparr>, \<lparr>px = 19, py = 15\<rparr>],
                current_direction = Left, grow_snake = False\<rparr> = 3 \<and>
   best_length (second_session
         \<lparr>snake := \<lparr>segments = [\<lparr>px = 19, py = 15\<rparr>, \<lparr>px = 20, py = 15\<rparr>, \<lparr>px = 19, py = 15\<rparr>],
                     current_direction = Left, grow_snake = False\<rparr>,
          last_move_time := milliseconds 9100,
          app_state := GameOver\<rparr>) = max 4 3"
proof -
  let ?inp = "(no_input (milliseconds 9100))\<lparr>IsKeyDown := (\<lambda>key. key = KEY_LEFT)\<rparr>"
  let ?final = "second_session
         \<lparr>snake := \<lparr>segments = [\<lparr>px = 19, py = 15\<rparr>, \<lparr>px = 20, py = 15\<rparr>, \<lparr>px = 19, py = 15\<rparr>],
                     current_direction = Left, grow_snake = False\<rparr>,
          last_move_time := milliseconds 9100,
          app_state := GameOver\<rparr>"
  have upd: "update ?inp second_session = Some ?final"
    by (simp add: second_session_def fresh_session_eq frame_eval)
  have facts: "app_state second_session = Playing" "app_state ?final = GameOver"
    "best_length second_session = 4" "best_length first_game_over = 4"
    "get_length (snake ?final) = 3"
    by (simp_all add: second_session_def first_game_over_def fresh_session_eq get_length_def)
  from best_length_high_water_mark
    [of 0 7 7 second_session ?inp ?final first_session_frames "Game_init 0 7 7" first_game_over]
    reachable_second_session upd run_first_session
  have "best_length (Game_init 0 7 7) = 0" "best_length ?final = max 4 3"
    "best_length (Game_init 0 7 7) \<le> best_length first_game_over"
    using facts by simp_all
  with run_first_session run_second_session reachable_second_session upd facts show ?thesis
    by (simp add: get_length_def)
qed




text \<open>
  Claim C10. In the Playing state, on a frame in which the pause action is newly pressed,
  \<open>update\<close> returns the same Game with the state set to Pause and nothing else changed:
  the snake, the food and the last-tick timestamp are as before, whether or not the tick
  interval has elapsed.
\<close>

theorem pause_preempts_tick:
  assumes "app_state g = Playing"
    and "is_action_pressed inp (pause (key_bindings g))"
  shows "update inp g = Some (g\<lparr>app_state := Pause\<rparr>)"
  using assms by (simp add: update_def update_playing_def)

theorem pause_preempts_tick_witness:
  "app_state fresh_session = Playing \<and>
   is_action_pressed ((no_input (milliseconds 3500))\<lparr>IsKeyPressed := (\<lambda>key. key = KEY_ESCAPE)\<rparr>)
     (pause (key_bindings fresh_session)) \<and>
   update ((no_input (milliseconds 3500))\<lparr>IsKeyPressed := (\<lambda>key. key = KEY_ESCAPE)\<rparr>)
     fresh_session = Some (fresh_session\<lparr>app_state := Pause\<rparr>)"
proof -
  let ?inp = "(no_input (milliseconds 3500))\<lparr>IsKeyPressed := (\<lambda>key. key = KEY_ESCAPE)\<rparr>"
  have h1: "app_state fresh_session = Playing"
    and h2: "is_action_pressed ?inp (pause (key_bindings fresh_session))"
    by (simp_all add: fresh_session_eq no_input_def)
  from pause_preempts_tick [OF h1 h2] h1 h2 show ?thesis
    by simp
qed

end
